theory Spec2Isabelle
  imports Complex_Main
begin

section \<open>Data model of svgcommands.ts\<close>

text \<open>
  A JavaScript number is a finite double, one of the two infinities, or NaN. A finite
  double is named by the real number it stands for; the two zeros of a double are one
  value, as they are for \<open>===\<close>.
\<close>

datatype num = Num real | PosInfinity | NegInfinity | NaN

text \<open>\<open>===\<close> on two numbers: NaN is equal to nothing, not even to itself.\<close>

definition strict_eq :: "num \<Rightarrow> num \<Rightarrow> bool" where
  "strict_eq a b = (a \<noteq> NaN \<and> b \<noteq> NaN \<and> a = b)"

text \<open>\<open>Point\<close> of mathutil: a pair of coordinates, never mutated in svgcommands.ts.\<close>

datatype Point = Point (px: num) (py: num)

text \<open>The only exception this file can raise: reading a property of \<open>undefined\<close>.\<close>

datatype error = TypeError

text \<open>The concrete subclass of a command: the value of \<open>this.constructor\<close>.\<close>

datatype variant = Move | Line | QuadraticCurve | BezierCurve | ClosePath | EllipticalArc

text \<open>
  A \<open>DrawCommand\<close> object. \<open>points\<close> is the array \<open>points_\<close>, whose entries may be
  \<open>undefined\<close> (\<open>None\<close>): the first move of a path has no start point. \<open>args\<close> is the
  own property of an \<open>EllipticalArcCommand\<close>; on every other command it is
  \<open>undefined\<close> (\<open>None\<close>). Both arrays are created by a rest parameter of the
  constructor, so no two command objects share an array, and neither field is ever
  reassigned: an object together with its two arrays is one cell of the store below.
\<close>

record DrawCommand =
  ctor :: variant
  svgChar :: string
  points :: "Point option list"
  args :: "num list option"

text \<open>The constructors of the six subclasses.\<close>

definition MoveCommand :: "Point option \<Rightarrow> Point option \<Rightarrow> DrawCommand" where
  "MoveCommand s e = \<lparr>ctor = Move, svgChar = ''M'', points = [s, e], args = None\<rparr>"

definition LineCommand :: "Point option \<Rightarrow> Point option \<Rightarrow> DrawCommand" where
  "LineCommand s e = \<lparr>ctor = Line, svgChar = ''L'', points = [s, e], args = None\<rparr>"

definition QuadraticCurveCommand ::
  "Point option \<Rightarrow> Point option \<Rightarrow> Point option \<Rightarrow> DrawCommand" where
  "QuadraticCurveCommand s cp e =
     \<lparr>ctor = QuadraticCurve, svgChar = ''Q'', points = [s, cp, e], args = None\<rparr>"

definition BezierCurveCommand ::
  "Point option \<Rightarrow> Point option \<Rightarrow> Point option \<Rightarrow> Point option \<Rightarrow> DrawCommand" where
  "BezierCurveCommand s cp1 cp2 e =
     \<lparr>ctor = BezierCurve, svgChar = ''C'', points = [s, cp1, cp2, e], args = None\<rparr>"

definition ClosePathCommand :: "Point option \<Rightarrow> Point option \<Rightarrow> DrawCommand" where
  "ClosePathCommand s e = \<lparr>ctor = ClosePath, svgChar = ''Z'', points = [s, e], args = None\<rparr>"

text \<open>
  An arc is built from its argument vector; the data model gives it nine entries
  \<open>[startX, startY, rx, ry, xAxisRotation, largeArcFlag, sweepFlag, endX, endY]\<close>.
  Reading or writing beyond the end of a shorter vector (JavaScript yields \<open>undefined\<close>,
  or extends the array) is outside this model: the theorems about arcs assume vectors
  that are long enough.
\<close>

definition EllipticalArcCommand :: "num list \<Rightarrow> DrawCommand" where
  "EllipticalArcCommand as =
     \<lparr>ctor = EllipticalArc, svgChar = ''A'',
      points = [Some (Point (as ! 0) (as ! 1)), Some (Point (as ! 7) (as ! 8))],
      args = Some as\<rparr>"

text \<open>The getters \<open>start\<close> and \<open>end\<close>: \<open>points_[0]\<close> and \<open>points_[points_.length - 1]\<close>;
  an index outside the array reads \<open>undefined\<close>.\<close>

definition cmd_start :: "DrawCommand \<Rightarrow> Point option" where
  "cmd_start c = (case points c of [] \<Rightarrow> None | p # _ \<Rightarrow> p)"

definition cmd_end :: "DrawCommand \<Rightarrow> Point option" where
  "cmd_end c = (if points c = [] then None else last (points c))"

text \<open>
  The arithmetic of doubles rounds and overflows, so \<open>+\<close>, \<open>-\<close> and \<open>*\<close> of the
  source are not the operations of the reals. They are not interpreted here: \<open>arith\<close>
  holds the three operations, \<open>lerp\<close> and every function that calls it take them as
  the parameter \<open>ar\<close>, and no theorem assumes anything about them.
\<close>

record arith =
  fadd :: "num \<Rightarrow> num \<Rightarrow> num"
  fsub :: "num \<Rightarrow> num \<Rightarrow> num"
  fmul :: "num \<Rightarrow> num \<Rightarrow> num"

text \<open>\<open>lerp\<close>: \<open>a + (b - a) * t\<close>.\<close>

definition lerp :: "arith \<Rightarrow> num \<Rightarrow> num \<Rightarrow> num \<Rightarrow> num" where
  "lerp ar a b t = fadd ar a (fmul ar (fsub ar b a) t)"

section \<open>Operations on one command\<close>

text \<open>\<open>isMorphableWith\<close>: the method of \<open>DrawCommand\<close>, the override of
  \<open>EllipticalArcCommand\<close>, and the dynamic dispatch on the receiver.\<close>

definition DrawCommand_isMorphableWith :: "DrawCommand \<Rightarrow> DrawCommand \<Rightarrow> bool" where
  "DrawCommand_isMorphableWith this command =
     (ctor this = ctor command \<and> length (points this) = length (points command))"

definition EllipticalArcCommand_isMorphableWith :: "DrawCommand \<Rightarrow> DrawCommand \<Rightarrow> bool" where
  "EllipticalArcCommand_isMorphableWith this command = True"

definition isMorphableWith :: "DrawCommand \<Rightarrow> DrawCommand \<Rightarrow> bool" where
  "isMorphableWith this command =
     (if ctor this = EllipticalArc then EllipticalArcCommand_isMorphableWith this command
      else DrawCommand_isMorphableWith this command)"

text \<open>\<open>reverse\<close> of \<open>DrawCommand\<close>: the point array is reversed in place when the
  command has a start point.\<close>

definition DrawCommand_reverse :: "DrawCommand \<Rightarrow> DrawCommand" where
  "DrawCommand_reverse this =
     (case cmd_start this of
        Some _ \<Rightarrow> this\<lparr>points := rev (points this)\<rparr>
      | None \<Rightarrow> this)"

text \<open>\<open>reverse\<close> of \<open>EllipticalArcCommand\<close>: five writes into \<open>args\<close>, in the order of
  the source; \<open>points_\<close> is not touched. (An arc always has \<open>args\<close>: the case \<open>None\<close>
  here and in \<open>transform\<close> is for a record no constructor builds.)\<close>

definition EllipticalArcCommand_reverse :: "DrawCommand \<Rightarrow> DrawCommand" where
  "EllipticalArcCommand_reverse this =
     (case args this of
        None \<Rightarrow> this
      | Some a \<Rightarrow>
          (let endX = a ! 0;
               endY = a ! 1;
               a1 = a[0 := a ! 7];
               a2 = a1[1 := a1 ! 8];
               a3 = a2[6 := (if strict_eq (a2 ! 6) (Num 0) then Num 1 else Num 0)];
               a4 = a3[7 := endX];
               a5 = a4[8 := endY]
           in this\<lparr>args := Some a5\<rparr>))"

definition reverse :: "DrawCommand \<Rightarrow> DrawCommand" where
  "reverse this =
     (if ctor this = EllipticalArc then EllipticalArcCommand_reverse this
      else DrawCommand_reverse this)"

text \<open>
  \<open>transform\<close>. The two external routines are parameters: \<open>tp\<close> stands for
  \<open>MathUtil.transform(_, ...transforms)\<close> on a point and \<open>ta\<close> for
  \<open>SvgUtil.transformArc(_, transforms)\<close> on the record of arc parameters.
\<close>

record Arc =
  rx :: num
  ry :: num
  xAxisRotation :: num
  largeArcFlag :: num
  sweepFlag :: num
  endX :: num
  endY :: num

text \<open>An array read \<open>ps[i]\<close> of a point array: \<open>undefined\<close> outside the array.\<close>

definition pt_at :: "Point option list \<Rightarrow> nat \<Rightarrow> Point option" where
  "pt_at ps i = (if i < length ps then ps ! i else None)"

fun DrawCommand_transform_loop ::
  "(Point \<Rightarrow> Point) \<Rightarrow> Point option list \<Rightarrow> nat list \<Rightarrow> Point option list" where
  "DrawCommand_transform_loop tp ps [] = ps"
| "DrawCommand_transform_loop tp ps (i # is) =
     (case pt_at ps i of
        Some p \<Rightarrow> DrawCommand_transform_loop tp (ps[i := Some (tp p)]) is
      | None \<Rightarrow> DrawCommand_transform_loop tp ps is)"

definition DrawCommand_transform :: "(Point \<Rightarrow> Point) \<Rightarrow> DrawCommand \<Rightarrow> DrawCommand" where
  "DrawCommand_transform tp this =
     this\<lparr>points := DrawCommand_transform_loop tp (points this) [0..<length (points this)]\<rparr>"

definition EllipticalArcCommand_transform ::
  "(Point \<Rightarrow> Point) \<Rightarrow> (Arc \<Rightarrow> Arc) \<Rightarrow> DrawCommand \<Rightarrow> DrawCommand" where
  "EllipticalArcCommand_transform tp ta this =
     (case args this of
        None \<Rightarrow> this
      | Some a \<Rightarrow>
          (let start = tp (Point (a ! 0) (a ! 1));
               a1 = a[0 := px start];
               a2 = a1[1 := py start];
               arc = ta \<lparr>rx = a2 ! 2, ry = a2 ! 3, xAxisRotation = a2 ! 4,
                         largeArcFlag = a2 ! 5, sweepFlag = a2 ! 6,
                         endX = a2 ! 7, endY = a2 ! 8\<rparr>;
               a3 = a2[2 := rx arc];
               a4 = a3[3 := ry arc];
               a5 = a4[4 := xAxisRotation arc];
               a6 = a5[5 := largeArcFlag arc];
               a7 = a6[6 := sweepFlag arc];
               a8 = a7[7 := endX arc];
               a9 = a8[8 := endY arc]
           in this\<lparr>args := Some a9\<rparr>))"

definition transform :: "(Point \<Rightarrow> Point) \<Rightarrow> (Arc \<Rightarrow> Arc) \<Rightarrow> DrawCommand \<Rightarrow> DrawCommand" where
  "transform tp ta this =
     (if ctor this = EllipticalArc then EllipticalArcCommand_transform tp ta this
      else DrawCommand_transform tp this)"

section \<open>The store, and interpolation\<close>

text \<open>
  Commands are mutable objects that subpaths and callers hold by reference, so
  \<open>interpolate\<close> and the subpath operations run on a store: a list of command objects,
  an address being an index into it. \<open>new\<close> appends an object.
\<close>

type_synonym addr = nat
type_synonym store = "DrawCommand list"

definition alloc :: "store \<Rightarrow> DrawCommand \<Rightarrow> addr \<times> store" where
  "alloc h c = (length h, h @ [c])"

text \<open>The two kinds of write of \<open>interpolate\<close>: \<open>this.points[i] = p\<close> and
  \<open>this.args[i] = v\<close>.\<close>

definition set_point :: "store \<Rightarrow> addr \<Rightarrow> nat \<Rightarrow> Point \<Rightarrow> store" where
  "set_point h a i p = h[a := (h ! a)\<lparr>points := (points (h ! a))[i := Some p]\<rparr>]"

definition set_arg :: "store \<Rightarrow> addr \<Rightarrow> nat \<Rightarrow> num \<Rightarrow> store" where
  "set_arg h a i v = h[a := (h ! a)\<lparr>args := map_option (\<lambda>as. as[i := v]) (args (h ! a))\<rparr>]"

text \<open>\<open>interpolate\<close> of \<open>DrawCommand\<close>. The loop reads \<open>start\<close> and \<open>end\<close> from the
  current store at every index, as the source does, so that a call in which \<open>this\<close> is
  also \<open>start\<close> or \<open>end\<close> is modelled too. Past the guard \<open>this\<close>, \<open>start\<close> and
  \<open>end\<close> have as many points, so every write is inside the array of \<open>this\<close> and the
  bound \<open>start.points.length\<close>, which the source reads before every round, is the
  same in every round.\<close>

fun DrawCommand_interpolate_loop ::
  "arith \<Rightarrow> store \<Rightarrow> addr \<Rightarrow> addr \<Rightarrow> addr \<Rightarrow> num \<Rightarrow> nat list \<Rightarrow> store" where
  "DrawCommand_interpolate_loop ar h this start end' fraction [] = h"
| "DrawCommand_interpolate_loop ar h this start end' fraction (i # is) =
     (case (pt_at (points (h ! start)) i, pt_at (points (h ! end')) i) of
        (Some startPoint, Some endPoint) \<Rightarrow>
          DrawCommand_interpolate_loop ar
            (set_point h this i
               (Point (lerp ar (px startPoint) (px endPoint) fraction)
                      (lerp ar (py startPoint) (py endPoint) fraction)))
            this start end' fraction is
      | _ \<Rightarrow> DrawCommand_interpolate_loop ar h this start end' fraction is)"

fun DrawCommand_interpolate ::
  "arith \<Rightarrow> store \<Rightarrow> addr \<Rightarrow> addr \<Rightarrow> addr \<Rightarrow> num \<Rightarrow> (error + bool) \<times> store" where
  "DrawCommand_interpolate ar h this start end' fraction =
     (if \<not> isMorphableWith (h ! this) (h ! start) \<or> \<not> isMorphableWith (h ! this) (h ! end')
      then (Inr False, h)
      else (Inr True,
            DrawCommand_interpolate_loop ar h this start end' fraction
              [0..<length (points (h ! start))]))"

text \<open>\<open>interpolate\<close> of \<open>EllipticalArcCommand\<close>: no morphability check; \<open>forEach\<close> over
  the indices of \<open>this.args\<close>. Reading \<open>start.args[i]\<close> or \<open>end.args[i]\<close> of a command
  without \<open>args\<close> raises a TypeError; at the flag indices only the side that the
  conditional selects is read.\<close>

fun EllipticalArcCommand_interpolate_loop ::
  "arith \<Rightarrow> store \<Rightarrow> addr \<Rightarrow> addr \<Rightarrow> addr \<Rightarrow> num \<Rightarrow> nat list \<Rightarrow> (error + bool) \<times> store" where
  "EllipticalArcCommand_interpolate_loop ar h this start end' fraction [] = (Inr True, h)"
| "EllipticalArcCommand_interpolate_loop ar h this start end' fraction (i # is) =
     (if i = 5 \<or> i = 6 then
        (case args (h ! (if strict_eq fraction (Num 0) then start else end')) of
           None \<Rightarrow> (Inl TypeError, h)
         | Some src \<Rightarrow>
             EllipticalArcCommand_interpolate_loop ar (set_arg h this i (src ! i))
               this start end' fraction is)
      else
        (case args (h ! start) of
           None \<Rightarrow> (Inl TypeError, h)
         | Some sa \<Rightarrow>
             (case args (h ! end') of
                None \<Rightarrow> (Inl TypeError, h)
              | Some ea \<Rightarrow>
                  EllipticalArcCommand_interpolate_loop ar
                    (set_arg h this i (lerp ar (sa ! i) (ea ! i) fraction))
                    this start end' fraction is)))"

fun EllipticalArcCommand_interpolate ::
  "arith \<Rightarrow> store \<Rightarrow> addr \<Rightarrow> addr \<Rightarrow> addr \<Rightarrow> num \<Rightarrow> (error + bool) \<times> store" where
  "EllipticalArcCommand_interpolate ar h this start end' fraction =
     (case args (h ! this) of
        None \<Rightarrow> (Inl TypeError, h)
      | Some a \<Rightarrow>
          EllipticalArcCommand_interpolate_loop ar h this start end' fraction [0..<length a])"

fun interpolate :: "arith \<Rightarrow> store \<Rightarrow> addr \<Rightarrow> addr \<Rightarrow> addr \<Rightarrow> num \<Rightarrow> (error + bool) \<times> store" where
  "interpolate ar h this start end' fraction =
     (if ctor (h ! this) = EllipticalArc
      then EllipticalArcCommand_interpolate ar h this start end' fraction
      else DrawCommand_interpolate ar h this start end' fraction)"

section \<open>SubPathCommand and PathCommand\<close>

text \<open>
  A \<open>SubPathCommand\<close> is its array \<open>commands_\<close> of references to commands; a
  \<open>PathCommand\<close> is its array of subpaths. An operation that changes the array
  returns the new one together with the new store.
\<close>

type_synonym SubPathCommand = "addr list"
type_synonym PathCommand = "SubPathCommand list"

definition SubPathCommand_isMorphableWith ::
  "store \<Rightarrow> SubPathCommand \<Rightarrow> SubPathCommand \<Rightarrow> bool" where
  "SubPathCommand_isMorphableWith h this command =
     (length this = length command \<and>
      list_all (\<lambda>i. isMorphableWith (h ! (this ! i)) (h ! (command ! i))) [0..<length this])"

text \<open>\<open>forEach\<close> over the commands: the result of each call is dropped, an exception
  ends the loop with the store as it is then.\<close>

fun SubPathCommand_interpolate_loop ::
  "arith \<Rightarrow> store \<Rightarrow> SubPathCommand \<Rightarrow> SubPathCommand \<Rightarrow> SubPathCommand \<Rightarrow> num \<Rightarrow> nat list
     \<Rightarrow> (error + bool) \<times> store" where
  "SubPathCommand_interpolate_loop ar h this start end' fraction [] = (Inr True, h)"
| "SubPathCommand_interpolate_loop ar h this start end' fraction (i # is) =
     (case interpolate ar h (this ! i) (start ! i) (end' ! i) fraction of
        (Inl e, h') \<Rightarrow> (Inl e, h')
      | (Inr _, h') \<Rightarrow> SubPathCommand_interpolate_loop ar h' this start end' fraction is)"

fun SubPathCommand_interpolate ::
  "arith \<Rightarrow> store \<Rightarrow> SubPathCommand \<Rightarrow> SubPathCommand \<Rightarrow> SubPathCommand \<Rightarrow> num
     \<Rightarrow> (error + bool) \<times> store" where
  "SubPathCommand_interpolate ar h this start end' fraction =
     (if \<not> SubPathCommand_isMorphableWith h this start
         \<or> \<not> SubPathCommand_isMorphableWith h this end'
      then (Inr False, h)
      else SubPathCommand_interpolate_loop ar h this start end' fraction [0..<length this])"

definition PathCommand_isMorphableWith :: "store \<Rightarrow> PathCommand \<Rightarrow> PathCommand \<Rightarrow> bool" where
  "PathCommand_isMorphableWith h this command =
     (length this = length command \<and>
      list_all (\<lambda>i. SubPathCommand_isMorphableWith h (this ! i) (command ! i))
        [0..<length this])"

fun PathCommand_interpolate_loop ::
  "arith \<Rightarrow> store \<Rightarrow> PathCommand \<Rightarrow> PathCommand \<Rightarrow> PathCommand \<Rightarrow> num \<Rightarrow> nat list
     \<Rightarrow> (error + bool) \<times> store" where
  "PathCommand_interpolate_loop ar h this start end' fraction [] = (Inr True, h)"
| "PathCommand_interpolate_loop ar h this start end' fraction (i # is) =
     (case SubPathCommand_interpolate ar h (this ! i) (start ! i) (end' ! i) fraction of
        (Inl e, h') \<Rightarrow> (Inl e, h')
      | (Inr _, h') \<Rightarrow> PathCommand_interpolate_loop ar h' this start end' fraction is)"

fun PathCommand_interpolate ::
  "arith \<Rightarrow> store \<Rightarrow> PathCommand \<Rightarrow> PathCommand \<Rightarrow> PathCommand \<Rightarrow> num \<Rightarrow> (error + bool) \<times> store" where
  "PathCommand_interpolate ar h this start end' fraction =
     (if \<not> PathCommand_isMorphableWith h this start
         \<or> \<not> PathCommand_isMorphableWith h this end'
      then (Inr False, h)
      else PathCommand_interpolate_loop ar h this start end' fraction [0..<length this])"

text \<open>
  The getters \<open>start\<close> and \<open>end\<close> of a subpath: the end point of the first and of
  the last command. On an empty command array \<open>commands[0]\<close> is \<open>undefined\<close> and
  reading its \<open>end\<close> raises a TypeError.
\<close>

definition SubPathCommand_start :: "store \<Rightarrow> SubPathCommand \<Rightarrow> error + Point option" where
  "SubPathCommand_start h cmds =
     (case cmds of [] \<Rightarrow> Inl TypeError | c # _ \<Rightarrow> Inr (cmd_end (h ! c)))"

definition SubPathCommand_end :: "store \<Rightarrow> SubPathCommand \<Rightarrow> error + Point option" where
  "SubPathCommand_end h cmds =
     (if cmds = [] then Inl TypeError else Inr (cmd_end (h ! (cmds ! (length cmds - 1)))))"

text \<open>
  \<open>isClosed\<close> reads \<open>this.start.x\<close>, then \<open>this.end.x\<close>, then the two \<open>y\<close>: it
  raises a TypeError when the start or the end of the subpath is \<open>undefined\<close>.
\<close>

definition isClosed :: "store \<Rightarrow> SubPathCommand \<Rightarrow> error + bool" where
  "isClosed h cmds =
     (case SubPathCommand_start h cmds of
        Inl e \<Rightarrow> Inl e
      | Inr None \<Rightarrow> Inl TypeError
      | Inr (Some s) \<Rightarrow>
          (case SubPathCommand_end h cmds of
             Inl e \<Rightarrow> Inl e
           | Inr None \<Rightarrow> Inl TypeError
           | Inr (Some e) \<Rightarrow> Inr (strict_eq (px s) (px e) \<and> strict_eq (py s) (py e))))"

text \<open>\<open>SubPathCommand.reverse\<close>. The loop runs \<open>i\<close> from \<open>length - 1\<close> down to 1,
  reversing each command in place and pushing its reference.\<close>

fun SubPathCommand_reverse_loop ::
  "store \<Rightarrow> SubPathCommand \<Rightarrow> SubPathCommand \<Rightarrow> nat list \<Rightarrow> SubPathCommand \<times> store" where
  "SubPathCommand_reverse_loop h cmds newCmds [] = (newCmds, h)"
| "SubPathCommand_reverse_loop h cmds newCmds (i # is) =
     SubPathCommand_reverse_loop (h[cmds ! i := reverse (h ! (cmds ! i))]) cmds
       (newCmds @ [cmds ! i]) is"

definition SubPathCommand_reverse ::
  "store \<Rightarrow> SubPathCommand \<Rightarrow> (error + SubPathCommand) \<times> store" where
  "SubPathCommand_reverse h cmds =
     (if cmds = [] then (Inl TypeError, h)
      else if length cmds = 1 then (Inr cmds, h[cmds ! 0 := reverse (h ! (cmds ! 0))])
      else
        (let (m, h1) = alloc h (MoveCommand (cmd_start (h ! (cmds ! 0)))
                                            (cmd_end (h ! (cmds ! (length cmds - 1)))));
             (newCmds, h2) = SubPathCommand_reverse_loop h1 cmds [m] (rev [1..<length cmds]);
             secondCmd = newCmds ! 1
         in if ctor (h2 ! secondCmd) = ClosePath then
              (let (l, h3) = alloc h2 (LineCommand (cmd_start (h2 ! secondCmd))
                                                   (cmd_end (h2 ! secondCmd)));
                   newCmds1 = newCmds[1 := l];
                   lastCmd = newCmds1 ! (length newCmds1 - 1);
                   (z, h4) = alloc h3 (ClosePathCommand (cmd_start (h3 ! lastCmd))
                                                        (cmd_end (h3 ! lastCmd)))
               in (Inr (newCmds1[length newCmds1 - 1 := z]), h4))
            else (Inr newCmds, h2)))"

text \<open>\<open>shiftBack\<close>: \<open>cmds.unshift(cmds.pop())\<close> moves the last reference to the front;
  then three (or two) slots of the array are overwritten.\<close>

definition shiftBack :: "store \<Rightarrow> SubPathCommand \<Rightarrow> (error + SubPathCommand) \<times> store" where
  "shiftBack h cmds =
     (if length cmds = 1 then (Inr cmds, h)
      else
        (case isClosed h cmds of
           Inl e \<Rightarrow> (Inl e, h)
         | Inr False \<Rightarrow> (Inr cmds, h)
         | Inr True \<Rightarrow>
             (let moveStartPoint = cmd_start (h ! (cmds ! 0));
                  cmds1 = last cmds # butlast cmds
              in if ctor (h ! (cmds1 ! 0)) = ClosePath then
                   (let lastCmd = cmds1 ! (length cmds1 - 1);
                        (z, h1) = alloc h (ClosePathCommand (cmd_start (h ! lastCmd))
                                                            (cmd_end (h ! lastCmd)));
                        cmds2 = cmds1[length cmds1 - 1 := z];
                        (l, h2) = alloc h1 (LineCommand (cmd_start (h1 ! (cmds2 ! 0)))
                                                        (cmd_end (h1 ! (cmds2 ! 0))));
                        cmds3 = cmds2[1 := l];
                        (m, h3) = alloc h2 (MoveCommand moveStartPoint
                                                        (cmd_start (h2 ! (cmds3 ! 1))))
                    in (Inr (cmds3[0 := m]), h3))
                 else
                   (let cmds2 = cmds1[1 := cmds1 ! 0];
                        (m, h1) = alloc h (MoveCommand moveStartPoint
                                                       (cmd_start (h ! (cmds2 ! 1))))
                    in (Inr (cmds2[0 := m]), h1)))))"

text \<open>\<open>shiftForward\<close>: the loop bound \<open>this.commands.length - 2\<close> is read again before
  every round, as in the source.\<close>

function shiftForward_loop ::
  "store \<Rightarrow> SubPathCommand \<Rightarrow> nat \<Rightarrow> (error + SubPathCommand) \<times> store" where
  "shiftForward_loop h cmds i =
     (if i < length cmds - 2 then
        (case shiftBack h cmds of
           (Inl e, h') \<Rightarrow> (Inl e, h')
         | (Inr cmds', h') \<Rightarrow> shiftForward_loop h' cmds' (i + 1))
      else (Inr cmds, h))"
  by pat_completeness auto
termination
proof (relation "measure (\<lambda>(h, cmds, i). length cmds - 2 - i)", goal_cases)
  case 1
  show ?case by simp
next
  case (2 h cmds i x h' cmds')
  then have "shiftBack h cmds = (Inr cmds', h')"
    by simp
  then have "length cmds' = length cmds"
    by (cases cmds rule: rev_cases)
       (auto simp: shiftBack_def isClosed_def SubPathCommand_start_def Let_def alloc_def
             split: if_splits sum.splits bool.splits nat.splits)
  with 2 show ?case
    by simp
qed

declare shiftForward_loop.simps [simp del]

definition shiftForward :: "store \<Rightarrow> SubPathCommand \<Rightarrow> (error + SubPathCommand) \<times> store" where
  "shiftForward h cmds =
     (if length cmds = 1 then (Inr cmds, h)
      else
        (case isClosed h cmds of
           Inl e \<Rightarrow> (Inl e, h)
         | Inr False \<Rightarrow> (Inr cmds, h)
         | Inr True \<Rightarrow> shiftForward_loop h cmds 0))"

text \<open>What a caller sees of a subpath after an operation: the commands its array
  refers to, in order.\<close>

definition commands_of :: "store \<Rightarrow> SubPathCommand \<Rightarrow> DrawCommand list" where
  "commands_of h cmds = map (\<lambda>a. h ! a) cmds"

definition outcome :: "(error + SubPathCommand) \<times> store \<Rightarrow> error + DrawCommand list" where
  "outcome r = (case r of (Inl e, h) \<Rightarrow> Inl e | (Inr cmds, h) \<Rightarrow> Inr (commands_of h cmds))"

section \<open>Shape and well-formedness of a command\<close>

text \<open>What the mutating operations of a command must keep: its constructor, its type
  tag, the number of its points and the length of its argument vector.\<close>

definition same_shape :: "DrawCommand \<Rightarrow> DrawCommand \<Rightarrow> bool" where
  "same_shape c c' =
     (ctor c' = ctor c \<and> svgChar c' = svgChar c
      \<and> length (points c') = length (points c)
      \<and> map_option length (args c') = map_option length (args c))"

text \<open>The invariant the constructors establish on \<open>args\<close>: an arc has nine arguments,
  any other command has none.\<close>

definition wf_cmd :: "DrawCommand \<Rightarrow> bool" where
  "wf_cmd c =
     (if ctor c = EllipticalArc then map_option length (args c) = Some 9 else args c = None)"

text \<open>The point \<open>interpolate\<close> of \<open>DrawCommand\<close> leaves at an index: the interpolated
  point when \<open>start\<close> and \<open>end\<close> both have a point there, the old entry otherwise.\<close>

definition lerp_point ::
  "arith \<Rightarrow> Point option \<Rightarrow> Point option \<Rightarrow> num \<Rightarrow> Point option \<Rightarrow> Point option" where
  "lerp_point ar startPoint endPoint fraction old =
     (case (startPoint, endPoint) of
        (Some s, Some e) \<Rightarrow> Some (Point (lerp ar (px s) (px e) fraction) (lerp ar (py s) (py e) fraction))
      | _ \<Rightarrow> old)"

section \<open>SubPathCommand.reverse on the command values\<close>

text \<open>
  What \<open>SubPathCommand.reverse\<close> does to a subpath of more than one command, written
  on the sequence of command values: a new move from the start of the first command
  to the end of the last, then the other commands from last to first, each reversed;
  when the second command is then a \<open>ClosePathCommand\<close> it becomes a line with its
  start and end, and after that the last command becomes a \<open>ClosePathCommand\<close> with
  its start and end.
\<close>

definition reverse_by_value :: "DrawCommand list \<Rightarrow> DrawCommand list" where
  "reverse_by_value old =
     (let n = length old;
          new = MoveCommand (cmd_start (old ! 0)) (cmd_end (old ! (n - 1)))
                  # map reverse (rev (tl old))
      in if ctor (new ! 1) = ClosePath then
           (let new1 = new[1 := LineCommand (cmd_start (new ! 1)) (cmd_end (new ! 1))]
            in new1[n - 1 := ClosePathCommand (cmd_start (new1 ! (n - 1)))
                                              (cmd_end (new1 ! (n - 1)))])
         else new)"

text \<open>A command that \<open>reverse\<close> turns around and turns back: not an arc, with a
  start and an end point.\<close>

definition reversible :: "DrawCommand \<Rightarrow> bool" where
  "reversible c = (ctor c \<noteq> EllipticalArc \<and> cmd_start c \<noteq> None \<and> cmd_end c \<noteq> None)"

text \<open>A subpath of segments that \<open>SubPathCommand.reverse\<close> can turn back: a move to the
  start of the first segment, then reversible segments; a \<open>ClosePathCommand\<close> stands
  nowhere but last, and when one does, the first segment is a line or the
  close-path itself.\<close>

definition polyline :: "DrawCommand list \<Rightarrow> bool" where
  "polyline cs =
     (case cs of
        [] \<Rightarrow> False
      | c0 # segs \<Rightarrow>
          segs \<noteq> [] \<and> c0 = MoveCommand (cmd_start c0) (cmd_start (hd segs))
          \<and> list_all reversible segs
          \<and> list_all (\<lambda>c. ctor c \<noteq> ClosePath) (butlast segs)
          \<and> (if ctor (last segs) = ClosePath
              then last segs = ClosePathCommand (cmd_start (last segs)) (cmd_end (last segs))
                   \<and> (length segs = 1
                        \<or> hd segs = LineCommand (cmd_start (hd segs)) (cmd_end (hd segs)))
              else True))"

section \<open>Example stores\<close>

text \<open>A point with finite coordinates, and a vector of finite numbers.\<close>

definition pt :: "real \<Rightarrow> real \<Rightarrow> Point option" where
  "pt a b = Some (Point (Num a) (Num b))"

definition nums :: "real list \<Rightarrow> num list" where
  "nums rs = map Num rs"

text \<open>The square \<open>M 0,0 L 10,0 L 10,10 Z\<close>; its subpath holds the addresses 0 to 3.\<close>

definition square_store :: store where
  "square_store =
     [MoveCommand None (pt 0 0), LineCommand (pt 0 0) (pt 10 0),
      LineCommand (pt 10 0) (pt 10 10), ClosePathCommand (pt 10 10) (pt 0 0)]"

text \<open>The same outline with a quadratic curve as its first segment:
  \<open>M 0,0 Q 5,5 10,0 L 10,10 Z\<close>.\<close>

definition curved_store :: store where
  "curved_store =
     [MoveCommand None (pt 0 0), QuadraticCurveCommand (pt 0 0) (pt 5 5) (pt 10 0),
      LineCommand (pt 10 0) (pt 10 10), ClosePathCommand (pt 10 10) (pt 0 0)]"

definition subpath0123 :: SubPathCommand where
  "subpath0123 = [0, 1, 2, 3]"

text \<open>The first line of the square after \<open>interpolate(start, end, 1/2)\<close>, where
  \<open>start\<close> and \<open>end\<close> are both the second line.\<close>

definition moved_line :: "arith \<Rightarrow> DrawCommand" where
  "moved_line ar =
     LineCommand (Some (Point (lerp ar (Num 10) (Num 10) (Num (1 / 2)))
                              (lerp ar (Num 0) (Num 0) (Num (1 / 2)))))
                 (Some (Point (lerp ar (Num 10) (Num 10) (Num (1 / 2)))
                              (lerp ar (Num 10) (Num 10) (Num (1 / 2)))))"

text \<open>Running a second subpath operation on the result of a first one.\<close>

definition and_then ::
  "(error + SubPathCommand) \<times> store
     \<Rightarrow> (store \<Rightarrow> SubPathCommand \<Rightarrow> (error + SubPathCommand) \<times> store)
     \<Rightarrow> (error + SubPathCommand) \<times> store" where
  "and_then r f = (case r of (Inl e, h) \<Rightarrow> (Inl e, h) | (Inr cmds, h) \<Rightarrow> f h cmds)"

text \<open>A subpath \<open>M A\<close> at the addresses 0 and 1, and a subpath \<open>M L\<close> at 2 and 3.\<close>

definition arc_store :: store where
  "arc_store =
     [MoveCommand None (pt 0 0), EllipticalArcCommand (nums [0, 0, 1, 1, 0, 0, 0, 5, 5]),
      MoveCommand None (pt 0 0), LineCommand (pt 0 0) (pt 5 5)]"

text \<open>Three arcs.\<close>

definition arcs_store :: store where
  "arcs_store =
     [EllipticalArcCommand (nums [0, 0, 1, 1, 0, 0, 0, 5, 5]),
      EllipticalArcCommand (nums [0, 0, 2, 2, 0, 1, 0, 4, 4]),
      EllipticalArcCommand (nums [2, 2, 4, 6, 90, 0, 1, 8, 0])]"

section \<open>Lemmas about the operations on one command\<close>

subsection \<open>Frame and shape of the two writes\<close>

lemma length_set_point [simp]: "length (set_point h a i p) = length h"
  by (simp add: set_point_def)

lemma length_set_arg [simp]: "length (set_arg h a i v) = length h"
  by (simp add: set_arg_def)

lemma set_point_other: "b \<noteq> a \<Longrightarrow> set_point h a i p ! b = h ! b"
  by (simp add: set_point_def)

lemma set_arg_other: "b \<noteq> a \<Longrightarrow> set_arg h a i v ! b = h ! b"
  by (simp add: set_arg_def)

lemma same_shape_refl [simp]: "same_shape c c"
  by (simp add: same_shape_def)

lemma same_shape_trans: "same_shape c d \<Longrightarrow> same_shape d e \<Longrightarrow> same_shape c e"
  by (simp add: same_shape_def)

lemma set_point_shape: "same_shape (h ! b) (set_point h a i p ! b)"
proof (cases "b = a \<and> a < length h")
  case True
  then show ?thesis by (simp add: set_point_def same_shape_def)
next
  case False
  then have "set_point h a i p ! b = h ! b"
    by (cases "b = a") (auto simp: set_point_def list_update_beyond)
  then show ?thesis by simp
qed

lemma set_arg_shape: "same_shape (h ! b) (set_arg h a i v ! b)"
proof (cases "b = a \<and> a < length h")
  case True
  then show ?thesis
    by (cases "args (h ! a)") (simp_all add: set_arg_def same_shape_def)
next
  case False
  then have "set_arg h a i v ! b = h ! b"
    by (cases "b = a") (auto simp: set_arg_def list_update_beyond)
  then show ?thesis by simp
qed

subsection \<open>The loops of interpolate\<close>

lemma DrawCommand_interpolate_loop_frame:
  "length (DrawCommand_interpolate_loop ar h this s e f is) = length h
   \<and> (\<forall>b. b \<noteq> this \<longrightarrow> DrawCommand_interpolate_loop ar h this s e f is ! b = h ! b)
   \<and> (\<forall>b. same_shape (h ! b) (DrawCommand_interpolate_loop ar h this s e f is ! b))"
proof (induction "is" arbitrary: h)
  case Nil
  show ?case by simp
next
  case (Cons i "is")
  show ?case
  proof (cases "pt_at (points (h ! s)) i")
    case None
    with Cons show ?thesis by simp
  next
    case sp: (Some startPoint)
    show ?thesis
    proof (cases "pt_at (points (h ! e)) i")
      case None
      with sp Cons show ?thesis by simp
    next
      case (Some endPoint)
      let ?h1 = "set_point h this i (Point (lerp ar (px startPoint) (px endPoint) f)
                                         (lerp ar (py startPoint) (py endPoint) f))"
      have step: "DrawCommand_interpolate_loop ar h this s e f (i # is)
                  = DrawCommand_interpolate_loop ar ?h1 this s e f is"
        using sp Some by simp
      from Cons.IH [of ?h1] show ?thesis
        unfolding step
        by (auto simp: set_point_other intro: same_shape_trans [OF set_point_shape])
    qed
  qed
qed

lemma EllipticalArcCommand_interpolate_loop_step:
  assumes "EllipticalArcCommand_interpolate_loop ar h this s e f (i # is) = (r, h')"
  shows "(r = Inl TypeError \<and> h' = h)
         \<or> (\<exists>v. EllipticalArcCommand_interpolate_loop ar (set_arg h this i v) this s e f is
                  = (r, h'))"
  using assms by (auto split: if_splits option.splits)

lemma EllipticalArcCommand_interpolate_loop_frame:
  "EllipticalArcCommand_interpolate_loop ar h this s e f is = (r, h')
   \<Longrightarrow> length h' = length h
       \<and> (\<forall>b. b \<noteq> this \<longrightarrow> h' ! b = h ! b)
       \<and> (\<forall>b. same_shape (h ! b) (h' ! b))"
proof (induction "is" arbitrary: h)
  case Nil
  then show ?case by auto
next
  case (Cons i "is")
  from EllipticalArcCommand_interpolate_loop_step [OF Cons.prems]
  show ?case
  proof
    assume "r = Inl TypeError \<and> h' = h"
    then show ?thesis by simp
  next
    assume "\<exists>v. EllipticalArcCommand_interpolate_loop ar (set_arg h this i v) this s e f is
                 = (r, h')"
    then obtain v where
      "EllipticalArcCommand_interpolate_loop ar (set_arg h this i v) this s e f is = (r, h')"
      by blast
    from Cons.IH [OF this] show ?thesis
      by (auto simp: set_arg_other intro: same_shape_trans [OF set_arg_shape])
  qed
qed

lemma interpolate_frame:
  assumes "interpolate ar h this s e f = (r, h')"
  shows "length h' = length h"
    and "b \<noteq> this \<Longrightarrow> h' ! b = h ! b"
    and "same_shape (h ! b) (h' ! b)"
proof -
  have "length h' = length h \<and> (\<forall>b. b \<noteq> this \<longrightarrow> h' ! b = h ! b)
        \<and> (\<forall>b. same_shape (h ! b) (h' ! b))"
  proof (cases "ctor (h ! this) = EllipticalArc")
    case True
    with assms show ?thesis
      by (auto split: option.splits dest!: EllipticalArcCommand_interpolate_loop_frame)
  next
    case False
    with assms DrawCommand_interpolate_loop_frame [of ar h this s e f "[0..<length (points (h ! s))]"]
    show ?thesis
      by (auto split: if_splits)
  qed
  then show "length h' = length h"
    and "b \<noteq> this \<Longrightarrow> h' ! b = h ! b"
    and "same_shape (h ! b) (h' ! b)"
    by auto
qed

lemma same_shape_morphable:
  "same_shape c c' \<Longrightarrow> same_shape d d' \<Longrightarrow> isMorphableWith c' d' = isMorphableWith c d"
  by (simp add: same_shape_def isMorphableWith_def DrawCommand_isMorphableWith_def
        EllipticalArcCommand_isMorphableWith_def)


subsection \<open>transform and reverse keep the shape\<close>

lemma length_DrawCommand_transform_loop [simp]:
  "length (DrawCommand_transform_loop tp ps is) = length ps"
  by (induction "is" arbitrary: ps) (auto split: option.splits)

lemma transform_shape: "same_shape c (transform tp ta c)"
  by (cases "args c")
     (simp_all add: same_shape_def transform_def DrawCommand_transform_def
        EllipticalArcCommand_transform_def Let_def)

lemma reverse_shape: "same_shape c (reverse c)"
  by (cases "args c"; cases "cmd_start c")
     (simp_all add: same_shape_def reverse_def DrawCommand_reverse_def
        EllipticalArcCommand_reverse_def strict_eq_def Let_def)

lemma same_shape_wf: "same_shape c c' \<Longrightarrow> wf_cmd c' = wf_cmd c"
  by (cases "args c"; cases "args c'") (simp_all add: same_shape_def wf_cmd_def)

subsection \<open>The values written by the arc's interpolate\<close>

lemma args_set_arg:
  "a < length h \<Longrightarrow> args (h ! b) = Some bs
   \<Longrightarrow> args (set_arg h a i v ! b) = Some (if b = a then bs[i := v] else bs)"
  by (auto simp: set_arg_def)

lemma EllipticalArcCommand_interpolate_loop_values:
  assumes "distinct is" and "\<forall>i\<in>set is. i < length ta"
    and "this < length h"
    and "args (h ! this) = Some ta" and "args (h ! s) = Some sa" and "args (h ! e) = Some ea"
  shows "\<exists>h' ta'. EllipticalArcCommand_interpolate_loop ar h this s e f is = (Inr True, h')
           \<and> args (h' ! this) = Some ta' \<and> length ta' = length ta
           \<and> (\<forall>i\<in>set is. ta' ! i =
                 (if i = 5 \<or> i = 6 then (if strict_eq f (Num 0) then sa ! i else ea ! i)
                  else lerp ar (sa ! i) (ea ! i) f))
           \<and> (\<forall>i. i \<notin> set is \<longrightarrow> ta' ! i = ta ! i)"
  using assms
proof (induction "is" arbitrary: h ta sa ea)
  case Nil
  then show ?case by simp
next
  case (Cons i "is")
  define v where
    "v = (if i = 5 \<or> i = 6 then (if strict_eq f (Num 0) then sa ! i else ea ! i)
          else lerp ar (sa ! i) (ea ! i) f)"
  define sa1 where "sa1 = (if s = this then sa[i := v] else sa)"
  define ea1 where "ea1 = (if e = this then ea[i := v] else ea)"
  let ?h1 = "set_arg h this i v"
  have step: "EllipticalArcCommand_interpolate_loop ar h this s e f (i # is)
              = EllipticalArcCommand_interpolate_loop ar ?h1 this s e f is"
    using Cons.prems by (simp add: v_def)
  have i_lt: "i < length ta" and i_notin: "i \<notin> set is" and dist: "distinct is"
    and rest: "\<forall>j\<in>set is. j < length (ta[i := v])"
    using Cons.prems by auto
  have len1: "this < length ?h1"
    using Cons.prems by simp
  have a_this: "args (?h1 ! this) = Some (ta[i := v])"
    using Cons.prems by (simp add: args_set_arg)
  have a_s: "args (?h1 ! s) = Some sa1"
    using Cons.prems by (simp add: args_set_arg sa1_def)
  have a_e: "args (?h1 ! e) = Some ea1"
    using Cons.prems by (simp add: args_set_arg ea1_def)
  from Cons.IH [OF dist rest len1 a_this a_s a_e]
  obtain h' ta' where
    run: "EllipticalArcCommand_interpolate_loop ar ?h1 this s e f is = (Inr True, h')"
    and got: "args (h' ! this) = Some ta'" and len: "length ta' = length (ta[i := v])"
    and new: "\<forall>j\<in>set is. ta' ! j =
                (if j = 5 \<or> j = 6 then (if strict_eq f (Num 0) then sa1 ! j else ea1 ! j)
                 else lerp ar (sa1 ! j) (ea1 ! j) f)"
    and old: "\<forall>j. j \<notin> set is \<longrightarrow> ta' ! j = (ta[i := v]) ! j"
    by blast
  have at_i: "ta' ! i = v"
    using old i_notin i_lt by simp
  have at_rest: "\<forall>j\<in>set is. ta' ! j =
                   (if j = 5 \<or> j = 6 then (if strict_eq f (Num 0) then sa ! j else ea ! j)
                    else lerp ar (sa ! j) (ea ! j) f)"
  proof
    fix j assume j: "j \<in> set is"
    with i_notin have "j \<noteq> i" by auto
    then have same: "sa1 ! j = sa ! j" "ea1 ! j = ea ! j"
      by (simp_all add: sa1_def ea1_def)
    from new j have "ta' ! j =
                (if j = 5 \<or> j = 6 then (if strict_eq f (Num 0) then sa1 ! j else ea1 ! j)
                 else lerp ar (sa1 ! j) (ea1 ! j) f)"
      by blast
    then show "ta' ! j =
                   (if j = 5 \<or> j = 6 then (if strict_eq f (Num 0) then sa ! j else ea ! j)
                    else lerp ar (sa ! j) (ea ! j) f)"
      by (simp only: same)
  qed
  have untouched: "\<forall>j. j \<notin> set (i # is) \<longrightarrow> ta' ! j = ta ! j"
    using old by simp
  show ?case
    unfolding step
    using run got len at_i at_rest untouched by (auto simp: v_def)
qed


subsection \<open>The points written by interpolate\<close>

lemma points_set_point:
  "a < length h \<Longrightarrow>
     points (set_point h a i p ! b) = (if b = a then (points (h ! b))[i := Some p] else points (h ! b))"
  by (auto simp: set_point_def)

lemma DrawCommand_interpolate_loop_values:
  assumes "distinct is" and "\<forall>i\<in>set is. i < length tp"
    and "this < length h"
    and "points (h ! this) = tp" and "points (h ! s) = sp" and "points (h ! e) = ep"
    and "length sp = length tp" and "length ep = length tp"
  shows "\<exists>tp'. points (DrawCommand_interpolate_loop ar h this s e f is ! this) = tp'
           \<and> length tp' = length tp
           \<and> (\<forall>i\<in>set is. tp' ! i = lerp_point ar (sp ! i) (ep ! i) f (tp ! i))
           \<and> (\<forall>i. i \<notin> set is \<longrightarrow> tp' ! i = tp ! i)"
  using assms
proof (induction "is" arbitrary: h tp sp ep)
  case Nil
  then show ?case by simp
next
  case (Cons i "is")
  have i_lt: "i < length tp" and i_notin: "i \<notin> set is" and dist: "distinct is"
    using Cons.prems by auto
  have rd_s: "pt_at (points (h ! s)) i = sp ! i" and rd_e: "pt_at (points (h ! e)) i = ep ! i"
    using Cons.prems i_lt by (simp_all add: pt_at_def)
  show ?case
  proof (cases "\<exists>a b. sp ! i = Some a \<and> ep ! i = Some b")
    case False
    then have skip: "DrawCommand_interpolate_loop ar h this s e f (i # is)
                     = DrawCommand_interpolate_loop ar h this s e f is"
      using rd_s rd_e by (auto split: option.splits)
    have same: "lerp_point ar (sp ! i) (ep ! i) f (tp ! i) = tp ! i"
      using False by (auto simp: lerp_point_def split: option.splits)
    have rest: "\<forall>j\<in>set is. j < length tp"
      using Cons.prems by simp
    from Cons.IH [OF dist rest Cons.prems(3) Cons.prems(4) Cons.prems(5) Cons.prems(6)
                     Cons.prems(7) Cons.prems(8)]
    obtain tp' where "points (DrawCommand_interpolate_loop ar h this s e f is ! this) = tp'"
      and "length tp' = length tp"
      and "\<forall>j\<in>set is. tp' ! j = lerp_point ar (sp ! j) (ep ! j) f (tp ! j)"
      and "\<forall>j. j \<notin> set is \<longrightarrow> tp' ! j = tp ! j"
      by blast
    then show ?thesis
      unfolding skip using same i_notin by auto
  next
    case True
    then obtain a b where ab: "sp ! i = Some a" "ep ! i = Some b"
      by blast
    define p where "p = Point (lerp ar (px a) (px b) f) (lerp ar (py a) (py b) f)"
    define sp1 where "sp1 = (if s = this then sp[i := Some p] else sp)"
    define ep1 where "ep1 = (if e = this then ep[i := Some p] else ep)"
    let ?h1 = "set_point h this i p"
    have step: "DrawCommand_interpolate_loop ar h this s e f (i # is)
                = DrawCommand_interpolate_loop ar ?h1 this s e f is"
      using rd_s rd_e ab by (simp add: p_def)
    have val: "lerp_point ar (sp ! i) (ep ! i) f (tp ! i) = Some p"
      using ab by (simp add: lerp_point_def p_def)
    have rest: "\<forall>j\<in>set is. j < length (tp[i := Some p])"
      using Cons.prems by simp
    have len1: "this < length ?h1"
      using Cons.prems by simp
    have p_this: "points (?h1 ! this) = tp[i := Some p]"
      using Cons.prems by (simp add: points_set_point)
    have p_s: "points (?h1 ! s) = sp1"
      using Cons.prems by (auto simp: points_set_point sp1_def)
    have p_e: "points (?h1 ! e) = ep1"
      using Cons.prems by (auto simp: points_set_point ep1_def)
    have l_s: "length sp1 = length (tp[i := Some p])"
      using Cons.prems by (simp add: sp1_def)
    have l_e: "length ep1 = length (tp[i := Some p])"
      using Cons.prems by (simp add: ep1_def)
    from Cons.IH [OF dist rest len1 p_this p_s p_e l_s l_e]
    obtain tp' where got: "points (DrawCommand_interpolate_loop ar ?h1 this s e f is ! this) = tp'"
      and len: "length tp' = length (tp[i := Some p])"
      and new: "\<forall>j\<in>set is. tp' ! j = lerp_point ar (sp1 ! j) (ep1 ! j) f ((tp[i := Some p]) ! j)"
      and old: "\<forall>j. j \<notin> set is \<longrightarrow> tp' ! j = (tp[i := Some p]) ! j"
      by blast
    have at_i: "tp' ! i = Some p"
      using old i_notin i_lt by simp
    have at_rest: "\<forall>j\<in>set is. tp' ! j = lerp_point ar (sp ! j) (ep ! j) f (tp ! j)"
    proof
      fix j assume j: "j \<in> set is"
      with i_notin have "j \<noteq> i" by auto
      then have same: "sp1 ! j = sp ! j" "ep1 ! j = ep ! j" "(tp[i := Some p]) ! j = tp ! j"
        by (simp_all add: sp1_def ep1_def)
      from new j have "tp' ! j = lerp_point ar (sp1 ! j) (ep1 ! j) f ((tp[i := Some p]) ! j)"
        by blast
      then show "tp' ! j = lerp_point ar (sp ! j) (ep ! j) f (tp ! j)"
        by (simp only: same)
    qed
    have untouched: "\<forall>j. j \<notin> set (i # is) \<longrightarrow> tp' ! j = tp ! j"
      using old by simp
    show ?thesis
      unfolding step using got len at_i at_rest untouched val by auto
  qed
qed

section \<open>Lemmas about shiftBack\<close>

lemma commands_of_append:
  "list_all (\<lambda>a. a < length h) cmds \<Longrightarrow> commands_of (h @ xs) cmds = commands_of h cmds"
  by (induction cmds) (simp_all add: commands_of_def nth_append)

lemma commands_of_update:
  "commands_of h (cmds[i := a]) = (commands_of h cmds)[i := h ! a]"
  by (simp add: commands_of_def map_update)

lemma commands_of_rotate:
  "cmds \<noteq> [] \<Longrightarrow> commands_of h (last cmds # butlast cmds)
     = last (commands_of h cmds) # butlast (commands_of h cmds)"
  by (simp add: commands_of_def last_map map_butlast)

lemma cmd_start_LineCommand [simp]: "cmd_start (LineCommand s e) = s"
  by (simp add: cmd_start_def LineCommand_def)

lemma shiftBack_closed_result:
  assumes n: "1 < length cmds" and closed: "isClosed h cmds = Inr True"
    and valid: "list_all (\<lambda>a. a < length h) cmds"
  shows "\<exists>cmds' h'. shiftBack h cmds = (Inr cmds', h') \<and> take (length h) h' = h
           \<and> (let old = commands_of h cmds; n = length old; rot = last old # butlast old;
                   r = (if ctor (rot ! 0) = ClosePath
                        then (rot[n - 1 := ClosePathCommand (cmd_start (rot ! (n - 1)))
                                                            (cmd_end (rot ! (n - 1)))])
                               [1 := LineCommand (cmd_start (rot ! 0)) (cmd_end (rot ! 0))]
                        else rot[1 := rot ! 0])
               in commands_of h' cmds' =
                    r[0 := MoveCommand (cmd_start (old ! 0)) (cmd_start (r ! 1))])"
proof -
  let ?n = "length cmds"
  define rot where "rot = last cmds # butlast cmds"
  from n have ne: "cmds \<noteq> []" by auto
  have last_valid: "last cmds < length h"
    using valid ne by (simp add: list_all_iff)
  have len_rot: "length rot = ?n"
    using ne by (simp add: rot_def)
  have rot0: "rot ! 0 = last cmds"
    by (simp add: rot_def)
  have rot_vals: "commands_of h rot = last (commands_of h cmds) # butlast (commands_of h cmds)"
    unfolding rot_def by (rule commands_of_rotate [OF ne])
  have rot_valid: "list_all (\<lambda>a. a < length h) rot"
    using valid ne by (auto simp: rot_def list_all_iff dest: in_set_butlastD)
  have last_val: "last (commands_of h cmds) = h ! last cmds"
    using ne by (simp add: commands_of_def last_map)
  have len_old: "length (commands_of h cmds) = ?n"
    by (simp add: commands_of_def)
  have old0: "commands_of h cmds ! 0 = h ! (cmds ! 0)"
    using ne by (simp add: commands_of_def)
  have rot_nth: "commands_of h rot ! i = h ! (rot ! i)" if "i < ?n" for i
    using that len_rot by (simp add: commands_of_def)
  have v0: "commands_of h rot ! 0 = h ! last cmds"
    using rot_nth [of 0] n ne rot0 by auto
  have vlast: "commands_of h rot ! (?n - 1) = h ! (rot ! (?n - 1))"
    using rot_nth [of "?n - 1"] n ne by auto
  have len_vals: "length (commands_of h rot) = ?n"
    using len_rot by (simp add: commands_of_def)
  show ?thesis
  proof (cases "ctor (h ! last cmds) = ClosePath")
    case False
    let ?m = "MoveCommand (cmd_start (h ! (cmds ! 0))) (cmd_start (h ! last cmds))"
    have run: "shiftBack h cmds = (Inr ((rot[1 := last cmds])[0 := length h]), h @ [?m])"
      unfolding rot_def using n closed False by (simp add: shiftBack_def alloc_def Let_def)
    have "commands_of (h @ [?m]) ((rot[1 := last cmds])[0 := length h])
          = ((commands_of (h @ [?m]) rot)[1 := (h @ [?m]) ! last cmds])[0 := (h @ [?m]) ! length h]"
      by (simp only: commands_of_update)
    also have "\<dots> = ((commands_of h rot)[1 := h ! last cmds])[0 := ?m]"
      using last_valid by (simp only: commands_of_append [OF rot_valid]) (simp add: nth_append)
    finally have vals: "commands_of (h @ [?m]) ((rot[1 := last cmds])[0 := length h])
          = ((commands_of h rot)[1 := h ! last cmds])[0 := ?m]" .
    have second: "((commands_of h rot)[1 := h ! last cmds]) ! 1 = h ! last cmds"
      using n len_vals by simp
    have shape: "(let old = commands_of h cmds; n = length old; rot = last old # butlast old;
                   r = (if ctor (rot ! 0) = ClosePath
                        then (rot[n - 1 := ClosePathCommand (cmd_start (rot ! (n - 1)))
                                                            (cmd_end (rot ! (n - 1)))])
                               [1 := LineCommand (cmd_start (rot ! 0)) (cmd_end (rot ! 0))]
                        else rot[1 := rot ! 0])
               in r[0 := MoveCommand (cmd_start (old ! 0)) (cmd_start (r ! 1))])
          = ((commands_of h rot)[1 := h ! last cmds])[0 := ?m]"
      unfolding Let_def rot_vals [symmetric] old0
      using False second v0 by simp
    show ?thesis
      unfolding run using vals shape by (simp add: Let_def)
  next
    case True
    let ?lastCmd = "rot ! (?n - 1)"
    have lastCmd_valid: "?lastCmd < length h"
      using rot_valid len_rot n by (simp add: list_all_length)
    let ?z = "ClosePathCommand (cmd_start (h ! ?lastCmd)) (cmd_end (h ! ?lastCmd))"
    let ?l = "LineCommand (cmd_start (h ! last cmds)) (cmd_end (h ! last cmds))"
    let ?m = "MoveCommand (cmd_start (h ! (cmds ! 0))) (cmd_start (h ! last cmds))"
    let ?H = "h @ [?z, ?l, ?m]"
    let ?cmds' = "((rot[?n - 1 := length h])[1 := Suc (length h)])[0 := Suc (Suc (length h))]"
    have upd0: "(rot[?n - 1 := length h]) ! 0 = last cmds"
      using n rot0 by simp
    have upd1: "((rot[?n - 1 := length h])[1 := Suc (length h)]) ! 1 = Suc (length h)"
      using n len_rot by simp
    have run: "shiftBack h cmds = (Inr ?cmds', ?H)"
      unfolding shiftBack_def rot_def [symmetric]
      using n closed True last_valid rot0 len_rot upd0 upd1
      by (simp add: alloc_def Let_def nth_append)
    have "commands_of ?H ?cmds'
          = (((commands_of ?H rot)[?n - 1 := ?H ! length h])[1 := ?H ! Suc (length h)])
              [0 := ?H ! Suc (Suc (length h))]"
      by (simp only: commands_of_update)
    also have "\<dots> = (((commands_of h rot)[?n - 1 := ?z])[1 := ?l])[0 := ?m]"
      by (simp only: commands_of_append [OF rot_valid]) (simp add: nth_append)
    finally have vals: "commands_of ?H ?cmds'
          = (((commands_of h rot)[?n - 1 := ?z])[1 := ?l])[0 := ?m]" .
    have second: "(((commands_of h rot)[?n - 1 := ?z])[1 := ?l]) ! 1 = ?l"
      using n len_vals by simp
    have shape: "(let old = commands_of h cmds; n = length old; rot = last old # butlast old;
                   r = (if ctor (rot ! 0) = ClosePath
                        then (rot[n - 1 := ClosePathCommand (cmd_start (rot ! (n - 1)))
                                                            (cmd_end (rot ! (n - 1)))])
                               [1 := LineCommand (cmd_start (rot ! 0)) (cmd_end (rot ! 0))]
                        else rot[1 := rot ! 0])
               in r[0 := MoveCommand (cmd_start (old ! 0)) (cmd_start (r ! 1))])
          = (((commands_of h rot)[?n - 1 := ?z])[1 := ?l])[0 := ?m]"
      unfolding Let_def rot_vals [symmetric] old0 len_old
      using True second v0 vlast by simp
    show ?thesis
      unfolding run using vals shape by (simp add: Let_def)
  qed
qed

section \<open>Lemmas about SubPathCommand.reverse\<close>

lemma SubPathCommand_reverse_loop_result:
  assumes "distinct (map ((!) cmds) is)"
  shows "\<exists>h'. SubPathCommand_reverse_loop h cmds acc is = (acc @ map ((!) cmds) is, h')
           \<and> length h' = length h
           \<and> (\<forall>a<length h. h' ! a = (if a \<in> (!) cmds ` set is then reverse (h ! a) else h ! a))"
  using assms
proof (induction "is" arbitrary: h acc)
  case Nil
  then show ?case by simp
next
  case (Cons i "is")
  let ?a = "cmds ! i"
  let ?h1 = "h[?a := reverse (h ! ?a)]"
  from Cons.prems have fresh: "?a \<notin> (!) cmds ` set is" and dist: "distinct (map ((!) cmds) is)"
    by auto
  from Cons.IH [OF dist, of ?h1 "acc @ [?a]"]
  obtain h' where run: "SubPathCommand_reverse_loop ?h1 cmds (acc @ [?a]) is
                          = ((acc @ [?a]) @ map ((!) cmds) is, h')"
    and len: "length h' = length ?h1"
    and vals: "\<forall>a<length ?h1. h' ! a
                 = (if a \<in> (!) cmds ` set is then reverse (?h1 ! a) else ?h1 ! a)"
    by blast
  have "\<forall>a<length h. h' ! a
          = (if a \<in> (!) cmds ` set (i # is) then reverse (h ! a) else h ! a)"
  proof (intro allI impI)
    fix a assume a: "a < length h"
    show "h' ! a = (if a \<in> (!) cmds ` set (i # is) then reverse (h ! a) else h ! a)"
    proof (cases "a = ?a")
      case True
      with vals a fresh show ?thesis by simp
    next
      case False
      with vals a show ?thesis by simp
    qed
  qed
  with run len show ?case
    by simp
qed


lemma map_nth_tl: "map ((!) xs) [Suc 0..<length xs] = tl xs"
proof (cases xs)
  case Nil
  then show ?thesis by simp
next
  case (Cons x ys)
  have "map ((!) (x # ys)) [Suc 0..<Suc (length ys)] = map ((!) ys) [0..<length ys]"
    unfolding map_Suc_upt [symmetric] by (simp add: comp_def)
  with Cons show ?thesis
    by (simp add: map_nth)
qed

lemma SubPathCommand_reverse_result:
  assumes n: "1 < length cmds" and dist: "distinct cmds"
    and valid: "list_all (\<lambda>a. a < length h) cmds"
  shows "\<exists>cmds' h'. SubPathCommand_reverse h cmds = (Inr cmds', h')
           \<and> commands_of h' cmds' = reverse_by_value (commands_of h cmds)
           \<and> length cmds' = length cmds \<and> distinct cmds'
           \<and> list_all (\<lambda>a. a < length h') cmds'"
proof -
  let ?n = "length cmds"
  define old where "old = commands_of h cmds"
  define m where "m = MoveCommand (cmd_start (h ! (cmds ! 0))) (cmd_end (h ! (cmds ! (?n - 1))))"
  define h1 where "h1 = h @ [m]"
  define new where "new = m # map reverse (rev (tl old))"
  from n have ne: "cmds \<noteq> []" by auto
  have len_old: "length old = ?n"
    by (simp add: old_def commands_of_def)
  have old_nth: "old ! i = h ! (cmds ! i)" if "i < ?n" for i
    using that by (simp add: old_def commands_of_def)
  have valid_set: "\<forall>a\<in>set cmds. a < length h"
    using valid by (simp add: list_all_iff)
  have tl_valid: "\<forall>a\<in>set (tl cmds). a < length h"
    using valid_set ne by (auto dest: list.set_sel(2))
  have idx: "map ((!) cmds) (rev [1..<?n]) = rev (tl cmds)"
    by (simp add: rev_map [symmetric] map_nth_tl)
  have dist_tl: "distinct (map ((!) cmds) (rev [1..<?n]))"
    unfolding idx using dist by (simp add: distinct_tl)
  from SubPathCommand_reverse_loop_result [OF dist_tl, of h1 "[length h]"]
  obtain h2 where loop: "SubPathCommand_reverse_loop h1 cmds [length h] (rev [1..<?n])
                           = ([length h] @ map ((!) cmds) (rev [1..<?n]), h2)"
    and len2: "length h2 = length h1"
    and vals2: "\<forall>a<length h1. h2 ! a
                  = (if a \<in> (!) cmds ` set (rev [1..<?n]) then reverse (h1 ! a) else h1 ! a)"
    by blast
  define newCmds where "newCmds = length h # rev (tl cmds)"
  have newCmds_eq: "[length h] @ map ((!) cmds) (rev [1..<?n]) = newCmds"
    unfolding idx by (simp add: newCmds_def)
  have img: "(!) cmds ` set (rev [1..<?n]) = set (tl cmds)"
    using arg_cong [OF idx, of set] by simp
  have len_new: "length newCmds = ?n"
    using ne by (simp add: newCmds_def)
  have len_h1: "length h1 = Suc (length h)"
    by (simp add: h1_def)
  have at_m: "h2 ! length h = m"
  proof -
    have "length h \<notin> set (tl cmds)"
      using tl_valid by auto
    with vals2 img len_h1 show ?thesis
      by (simp add: h1_def)
  qed
  have at_tl: "h2 ! a = reverse (h ! a)" if "a \<in> set (tl cmds)" for a
  proof -
    from that tl_valid have "a < length h" by auto
    with vals2 img len_h1 that show ?thesis
      by (simp add: h1_def nth_append)
  qed
  have o0: "old ! 0 = h ! (cmds ! 0)"
    using old_nth [of 0] ne by auto
  have olast: "old ! (?n - 1) = h ! (cmds ! (?n - 1))"
    using old_nth [of "?n - 1"] ne by auto
  have m_eq: "m = MoveCommand (cmd_start (old ! 0)) (cmd_end (old ! (?n - 1)))"
    unfolding o0 olast by (simp add: m_def)
  have new_vals: "commands_of h2 newCmds = new"
  proof -
    have "map ((!) h2) (rev (tl cmds)) = map (\<lambda>a. reverse (h ! a)) (rev (tl cmds))"
      by (rule map_cong) (auto simp: at_tl)
    also have "\<dots> = map reverse (rev (tl old))"
      by (simp add: old_def commands_of_def map_tl [symmetric] rev_map comp_def)
    finally show ?thesis
      by (simp add: commands_of_def newCmds_def new_def at_m)
  qed
  have new_valid: "list_all (\<lambda>a. a < length h2) newCmds"
    using tl_valid len2 len_h1 by (auto simp: newCmds_def list_all_iff)
  have new_dist: "distinct newCmds"
    using dist tl_valid by (auto simp: newCmds_def distinct_tl)
  have run0: "SubPathCommand_reverse h cmds =
        (let secondCmd = newCmds ! 1
         in if ctor (h2 ! secondCmd) = ClosePath then
              (let (l, h3) = alloc h2 (LineCommand (cmd_start (h2 ! secondCmd))
                                                   (cmd_end (h2 ! secondCmd)));
                   newCmds1 = newCmds[1 := l];
                   lastCmd = newCmds1 ! (length newCmds1 - 1);
                   (z, h4) = alloc h3 (ClosePathCommand (cmd_start (h3 ! lastCmd))
                                                        (cmd_end (h3 ! lastCmd)))
               in (Inr (newCmds1[length newCmds1 - 1 := z]), h4))
            else (Inr newCmds, h2))"
    using n ne loop [unfolded newCmds_eq h1_def m_def]
    by (simp add: SubPathCommand_reverse_def alloc_def)
  have nth_new: "h2 ! (newCmds ! i) = new ! i" if "i < ?n" for i
    using that len_new unfolding new_vals [symmetric] by (simp add: commands_of_def)
  have second: "h2 ! (newCmds ! Suc 0) = new ! Suc 0"
    using nth_new [of 1] n by auto
  have rbv: "reverse_by_value old =
        (if ctor (new ! 1) = ClosePath then
           (let new1 = new[1 := LineCommand (cmd_start (new ! 1)) (cmd_end (new ! 1))]
            in new1[?n - 1 := ClosePathCommand (cmd_start (new1 ! (?n - 1)))
                                               (cmd_end (new1 ! (?n - 1)))])
         else new)"
    unfolding reverse_by_value_def len_old new_def m_eq by (simp add: Let_def)
  have new_bound: "\<forall>a\<in>set newCmds. a < length h2"
    using new_valid by (simp add: list_all_iff)
  show ?thesis
  proof (cases "ctor (new ! 1) = ClosePath")
    case False
    then have run: "SubPathCommand_reverse h cmds = (Inr newCmds, h2)"
      unfolding run0 by (simp add: second Let_def)
    show ?thesis
      unfolding run old_def [symmetric] rbv
      using False new_vals len_new new_dist new_valid by simp
  next
    case True
    define l where "l = LineCommand (cmd_start (new ! 1)) (cmd_end (new ! 1))"
    define newCmds1 where "newCmds1 = newCmds[1 := length h2]"
    define new1 where "new1 = new[1 := l]"
    define z where "z = ClosePathCommand (cmd_start (new1 ! (?n - 1))) (cmd_end (new1 ! (?n - 1)))"
    define h4 where "h4 = h2 @ [l, z]"
    have len1: "length newCmds1 = ?n"
      by (simp add: newCmds1_def len_new)
    have len_newv: "length new = ?n"
      using len_new unfolding new_vals [symmetric] by (simp add: commands_of_def)
    have last_val: "(h2 @ [l]) ! (newCmds1 ! (?n - 1)) = new1 ! (?n - 1)"
    proof (cases "?n - 1 = 1")
      case True
      then show ?thesis
        using len_new len_newv n by (simp add: newCmds1_def new1_def)
    next
      case False
      then have "newCmds1 ! (?n - 1) = newCmds ! (?n - 1)" and "new1 ! (?n - 1) = new ! (?n - 1)"
        by (simp_all add: newCmds1_def new1_def)
      moreover have "newCmds ! (?n - 1) < length h2"
      proof -
        have "newCmds ! (?n - 1) \<in> set newCmds"
          using len_new n by (intro nth_mem) simp
        with new_bound show ?thesis by blast
      qed
      ultimately show ?thesis
        using nth_new [of "?n - 1"] n by (simp add: nth_append)
    qed
    have run: "SubPathCommand_reverse h cmds
                 = (Inr (newCmds1[?n - 1 := Suc (length h2)]), h4)"
      unfolding run0 using True last_val [unfolded newCmds1_def new1_def l_def]
      by (simp add: second Let_def alloc_def len_new newCmds1_def h4_def z_def l_def new1_def)
    have "commands_of h4 (newCmds1[?n - 1 := Suc (length h2)])
            = ((commands_of h4 newCmds)[1 := h4 ! length h2])[?n - 1 := h4 ! Suc (length h2)]"
      unfolding newCmds1_def by (simp only: commands_of_update)
    also have "\<dots> = (new[1 := l])[?n - 1 := z]"
      unfolding h4_def by (simp only: commands_of_append [OF new_valid] new_vals) (simp add: nth_append)
    finally have vals: "commands_of h4 (newCmds1[?n - 1 := Suc (length h2)])
                          = (new[1 := l])[?n - 1 := z]" .
    have fresh1: "length h2 \<notin> set newCmds" and fresh2: "Suc (length h2) \<notin> set newCmds"
      using new_bound by auto
    have d1: "distinct newCmds1"
      unfolding newCmds1_def using new_dist fresh1 by (simp add: distinct_list_update)
    have "set newCmds1 \<subseteq> insert (length h2) (set newCmds)"
      unfolding newCmds1_def by (rule set_update_subset_insert)
    with fresh2 have fresh3: "Suc (length h2) \<notin> set newCmds1"
      by auto
    have d2: "distinct (newCmds1[?n - 1 := Suc (length h2)])"
      using d1 fresh3 by (simp add: distinct_list_update)
    have sub: "set (newCmds1[?n - 1 := Suc (length h2)])
                 \<subseteq> insert (Suc (length h2)) (insert (length h2) (set newCmds))"
      using set_update_subset_insert [of newCmds1 "?n - 1" "Suc (length h2)"]
        \<open>set newCmds1 \<subseteq> insert (length h2) (set newCmds)\<close>
      by auto
    have v2: "list_all (\<lambda>a. a < length h4) (newCmds1[?n - 1 := Suc (length h2)])"
      unfolding list_all_iff h4_def using sub new_bound by fastforce
    show ?thesis
      unfolding run old_def [symmetric] rbv
      using True vals d2 v2 len1 by (simp add: Let_def l_def new1_def z_def)
  qed
qed

lemma reverse_reversible:
  assumes "reversible c"
  shows "reverse (reverse c) = c" and "reversible (reverse c)" and "ctor (reverse c) = ctor c"
    and "cmd_start (reverse c) = cmd_end c" and "cmd_end (reverse c) = cmd_start c"
proof -
  from assms obtain p q where pq: "cmd_start c = Some p" "cmd_end c = Some q"
    and na: "ctor c \<noteq> EllipticalArc"
    by (auto simp: reversible_def)
  then have ne: "points c \<noteq> []"
    by (auto simp: cmd_start_def)
  have r: "reverse c = c\<lparr>points := rev (points c)\<rparr>"
    using pq na by (simp add: reverse_def DrawCommand_reverse_def)
  have hd_p: "hd (points c) = Some p" and last_q: "last (points c) = Some q"
    using pq ne by (auto simp: cmd_start_def cmd_end_def split: list.splits)
  show s: "cmd_start (reverse c) = cmd_end c"
    unfolding r using ne last_q pq
    by (cases "points c" rule: rev_cases) (simp_all add: cmd_start_def cmd_end_def)
  show e: "cmd_end (reverse c) = cmd_start c"
    unfolding r using ne hd_p pq
    by (cases "points c") (simp_all add: cmd_start_def cmd_end_def)
  show "ctor (reverse c) = ctor c"
    unfolding r by simp
  then show "reversible (reverse c)"
    using s e pq na by (simp add: reversible_def)
  have "cmd_start (c\<lparr>points := rev (points c)\<rparr>) = Some q"
    using s r pq by simp
  then show "reverse (reverse c) = c"
    unfolding r using na by (simp add: reverse_def DrawCommand_reverse_def)
qed


lemma map_reverse_twice:
  "list_all reversible xs \<Longrightarrow> map reverse (rev (map reverse (rev xs))) = xs"
  by (induction xs) (simp_all add: rev_map reverse_reversible(1))

lemma two_point_simps:
  "cmd_start (MoveCommand s e) = s" "cmd_end (MoveCommand s e) = e"
  "cmd_end (LineCommand s e) = e"
  "cmd_start (ClosePathCommand s e) = s" "cmd_end (ClosePathCommand s e) = e"
  "ctor (MoveCommand s e) = Move" "ctor (LineCommand s e) = Line"
  "ctor (ClosePathCommand s e) = ClosePath"
  by (simp_all add: cmd_start_def cmd_end_def MoveCommand_def LineCommand_def
        ClosePathCommand_def)

lemma reverse_two_points:
  "reverse (LineCommand (Some p) (Some q)) = LineCommand (Some q) (Some p)"
  "reverse (ClosePathCommand (Some p) (Some q)) = ClosePathCommand (Some q) (Some p)"
  by (simp_all add: reverse_def DrawCommand_reverse_def cmd_start_def LineCommand_def
        ClosePathCommand_def)

lemma reverse_by_value_Cons:
  assumes "segs \<noteq> []"
  shows "reverse_by_value (c0 # segs) =
     (let new = MoveCommand (cmd_start c0) (cmd_end (last segs)) # map reverse (rev segs)
      in if ctor (reverse (last segs)) = ClosePath then
           (let new1 = new[1 := LineCommand (cmd_start (reverse (last segs)))
                                            (cmd_end (reverse (last segs)))]
            in new1[length segs := ClosePathCommand (cmd_start (new1 ! length segs))
                                                    (cmd_end (new1 ! length segs))])
         else new)"
proof -
  have a: "(c0 # segs) ! (length (c0 # segs) - 1) = last segs"
    using assms by (simp add: last_conv_nth)
  have b: "map reverse (rev segs) ! 0 = reverse (last segs)"
    using assms by (cases segs rule: rev_cases) simp_all
  show ?thesis
    using assms by (simp add: reverse_by_value_def Let_def last_conv_nth b del: list_update.simps)
qed

lemma reverse_by_value_twice:
  assumes "polyline cs"
  shows "reverse_by_value (reverse_by_value cs) = cs"
  supply two_point_simps [simp]
proof -
  from assms obtain c0 segs where cs: "cs = c0 # segs" and ne: "segs \<noteq> []"
    and c0: "c0 = MoveCommand (cmd_start c0) (cmd_start (hd segs))"
    and rv: "list_all reversible segs"
    and inner: "list_all (\<lambda>c. ctor c \<noteq> ClosePath) (butlast segs)"
    and closing: "ctor (last segs) = ClosePath \<Longrightarrow>
                    last segs = ClosePathCommand (cmd_start (last segs)) (cmd_end (last segs))
                    \<and> (length segs = 1
                         \<or> hd segs = LineCommand (cmd_start (hd segs)) (cmd_end (hd segs)))"
    by (auto simp: polyline_def split: list.splits if_splits)
  from ne rv have rv_last: "reversible (last segs)" and rv_hd: "reversible (hd segs)"
    by (auto simp: list_all_iff)
  note rl = reverse_reversible [OF rv_last]
  note rh = reverse_reversible [OF rv_hd]
  show ?thesis
  proof (cases "ctor (last segs) = ClosePath")
    case False
    define m1 where "m1 = MoveCommand (cmd_start c0) (cmd_end (last segs))"
    define xs where "xs = map reverse (rev segs)"
    have xs_ne: "xs \<noteq> []"
      using ne by (simp add: xs_def)
    have last_xs: "last xs = reverse (hd segs)"
      using ne by (simp add: xs_def last_map last_rev)
    have again: "map reverse (rev xs) = segs"
      unfolding xs_def by (rule map_reverse_twice [OF rv])
    have first: "reverse_by_value cs = m1 # xs"
      unfolding cs reverse_by_value_Cons [OF ne] using False
      by (simp add: Let_def rl(3) m1_def xs_def)
    have hd_open: "ctor (hd segs) \<noteq> ClosePath"
    proof (cases "length segs = 1")
      case True
      with ne False show ?thesis
        by (cases segs) auto
    next
      case many: False
      with ne have "hd segs \<in> set (butlast segs)"
        by (cases segs) (auto simp: neq_Nil_conv)
      with inner show ?thesis
        by (simp add: list_all_iff)
    qed
    have "reverse_by_value (m1 # xs) = c0 # segs"
      unfolding reverse_by_value_Cons [OF xs_ne] last_xs again
      using hd_open c0 by (simp add: Let_def rh m1_def)
    then show ?thesis
      unfolding first by (simp add: cs)
  next
    case True
    from closing [OF True] rv_last obtain zs ze
      where z: "last segs = ClosePathCommand (Some zs) (Some ze)"
      by (auto simp: reversible_def)
    show ?thesis
    proof (cases "length segs = 1")
      case one: True
      with z have segs: "segs = [ClosePathCommand (Some zs) (Some ze)]"
        by (cases segs) auto
      with c0 have c0': "MoveCommand (cmd_start c0) (Some zs) = c0"
        by simp
      show ?thesis
        unfolding cs segs
        by (simp add: reverse_by_value_Cons Let_def reverse_two_points c0')
    next
      case many: False
      with ne obtain l1 rest where segs1: "segs = l1 # rest" and rest: "rest \<noteq> []"
        by (cases segs) auto
      then obtain mid z' where rest': "rest = mid @ [z']"
        by (cases rest rule: rev_cases) auto
      with segs1 z have segs: "segs = l1 # mid @ [ClosePathCommand (Some zs) (Some ze)]"
        by simp
      from closing [OF True] many segs1 rv_hd obtain a b
        where l1: "l1 = LineCommand (Some a) (Some b)"
        by (auto simp: reversible_def)
      define ys where "ys = map reverse (rev mid)"
      have rv_mid: "list_all reversible mid"
        using rv segs by simp
      have ys_back: "map reverse (rev ys) = mid"
        unfolding ys_def by (rule map_reverse_twice [OF rv_mid])
      have len_ys: "length ys = length mid"
        by (simp add: ys_def)
      from c0 segs1 l1 have c0': "MoveCommand (cmd_start c0) (Some a) = c0"
        by simp
      have first: "reverse_by_value cs =
                     MoveCommand (cmd_start c0) (Some ze)
                       # LineCommand (Some ze) (Some zs) # ys
                       @ [ClosePathCommand (Some b) (Some a)]"
        unfolding cs segs l1
        by (simp add: reverse_by_value_Cons Let_def reverse_two_points ys_def [symmetric]
              len_ys [symmetric] nth_append)
      have "reverse_by_value (MoveCommand (cmd_start c0) (Some ze)
                       # LineCommand (Some ze) (Some zs) # ys
                       @ [ClosePathCommand (Some b) (Some a)])
            = c0 # LineCommand (Some a) (Some b) # mid @ [ClosePathCommand (Some zs) (Some ze)]"
        by (simp add: reverse_by_value_Cons Let_def reverse_two_points ys_back c0'
              len_ys nth_append)
      then show ?thesis
        unfolding first by (simp add: cs segs l1)
    qed
  qed
qed

section \<open>C1: morphability of two commands\<close>

text \<open>
  C1 says that \<open>isMorphableWith\<close> is false for two commands of differing concrete
  variant, and true for two commands of the same variant with the same number of
  points. The method of \<open>DrawCommand\<close> does exactly that, but the override of
  \<open>EllipticalArcCommand\<close> returns true for every argument: an arc as the receiver is
  morphable with a line. Through \<open>SubPathCommand.isMorphableWith\<close>, whose commands
  have the static type \<open>DrawCommand\<close>, the subpath \<open>M A\<close> is then morphable with
  \<open>M L\<close>, and interpolating it between two such subpaths raises a TypeError
  (\<open>start.args\<close> is \<open>undefined\<close>).
\<close>

theorem C1_arc_receiver_morphable_with_line:
  "isMorphableWith (arc_store ! 1) (arc_store ! 3)
   \<and> \<not> isMorphableWith (arc_store ! 3) (arc_store ! 1)
   \<and> SubPathCommand_isMorphableWith arc_store [0, 1] [2, 3]
   \<and> fst (SubPathCommand_interpolate ar arc_store [0, 1] [2, 3] [2, 3] (Num (1 / 2)))
       = Inl TypeError"
  by (simp add: arc_store_def pt_def MoveCommand_def LineCommand_def
          EllipticalArcCommand_def nums_def isMorphableWith_def
          DrawCommand_isMorphableWith_def
          EllipticalArcCommand_isMorphableWith_def SubPathCommand_isMorphableWith_def
          pt_at_def set_point_def)

section \<open>C2: the values written by the arc's interpolate\<close>

text \<open>
  C2: for arcs \<open>start\<close> and \<open>end\<close> and every fraction, \<open>interpolate\<close> on an arc sets
  the entries 5 and 6 of \<open>args\<close> (the two flags) to those of \<open>start\<close> when the
  fraction is 0 and to those of \<open>end\<close> otherwise, and every other entry \<open>i\<close> to
  \<open>start.args[i] + (end.args[i] - start.args[i]) * fraction\<close>, computed with the
  operations \<open>fadd\<close>, \<open>fsub\<close> and \<open>fmul\<close> of the arithmetic \<open>ar\<close>, whatever they are.
  The call returns true. \<open>sa\<close> and \<open>ea\<close> are the argument vectors of \<open>start\<close> and
  \<open>end\<close> before the call: the statement also covers a call in which \<open>this\<close> is
  \<open>start\<close> or \<open>end\<close>. The two vectors are at least as long as that of \<open>this\<close> (all
  three have nine entries in the data model), so that every read is inside them.
\<close>

theorem C2_arc_interpolate_values:
  assumes "ctor (h ! this) = EllipticalArc" and "this < length h"
    and "args (h ! this) = Some ta" and "args (h ! start) = Some sa"
    and "args (h ! end') = Some ea"
    and "length ta \<le> length sa" and "length ta \<le> length ea"
  shows "\<exists>h' ta'. interpolate ar h this start end' fraction = (Inr True, h')
           \<and> args (h' ! this) = Some ta' \<and> length ta' = length ta
           \<and> (\<forall>i<length ta. ta' ! i =
                 (if i = 5 \<or> i = 6
                  then (if strict_eq fraction (Num 0) then sa ! i else ea ! i)
                  else fadd ar (sa ! i) (fmul ar (fsub ar (ea ! i) (sa ! i)) fraction)))"
proof -
  have "distinct [0..<length ta]" and "\<forall>i\<in>set [0..<length ta]. i < length ta"
    by simp_all
  from EllipticalArcCommand_interpolate_loop_values
         [OF this assms(2) assms(3) assms(4) assms(5), of ar fraction]
  obtain h' ta' where
    "EllipticalArcCommand_interpolate_loop ar h this start end' fraction [0..<length ta]
       = (Inr True, h')"
    and "args (h' ! this) = Some ta'" and "length ta' = length ta"
    and "\<forall>i\<in>set [0..<length ta]. ta' ! i =
           (if i = 5 \<or> i = 6 then (if strict_eq fraction (Num 0) then sa ! i else ea ! i)
            else lerp ar (sa ! i) (ea ! i) fraction)"
    by blast
  with assms(1) assms(3) show ?thesis
    by (auto simp: lerp_def)
qed

text \<open>The first of three arcs interpolated between the other two, half way and at 0,
  in any arithmetic.\<close>

theorem C2_arc_interpolate_values_witness:
  "\<forall>ar.
     (\<exists>h' ta'. interpolate ar arcs_store 0 1 2 (Num (1 / 2)) = (Inr True, h')
        \<and> args (h' ! 0) = Some ta' \<and> length ta' = 9
        \<and> ta' ! 2 = fadd ar (Num 2) (fmul ar (fsub ar (Num 4) (Num 2)) (Num (1 / 2)))
        \<and> ta' ! 4 = fadd ar (Num 0) (fmul ar (fsub ar (Num 90) (Num 0)) (Num (1 / 2)))
        \<and> ta' ! 5 = Num 0 \<and> ta' ! 6 = Num 1
        \<and> ta' ! 7 = fadd ar (Num 4) (fmul ar (fsub ar (Num 8) (Num 4)) (Num (1 / 2))))
     \<and> (\<exists>h' ta'. interpolate ar arcs_store 0 1 2 (Num 0) = (Inr True, h')
        \<and> args (h' ! 0) = Some ta' \<and> length ta' = 9
        \<and> ta' ! 2 = fadd ar (Num 2) (fmul ar (fsub ar (Num 4) (Num 2)) (Num 0))
        \<and> ta' ! 5 = Num 1 \<and> ta' ! 6 = Num 0)"
  (is "\<forall>ar. ?P ar")
proof
  fix ar
  have a: "ctor (arcs_store ! 0) = EllipticalArc" "0 < length arcs_store"
    "args (arcs_store ! 0) = Some (nums [0, 0, 1, 1, 0, 0, 0, 5, 5])"
    "args (arcs_store ! 1) = Some (nums [0, 0, 2, 2, 0, 1, 0, 4, 4])"
    "args (arcs_store ! 2) = Some (nums [2, 2, 4, 6, 90, 0, 1, 8, 0])"
    "length (nums [0, 0, 1, 1, 0, 0, 0, 5, 5]) \<le> length (nums [0, 0, 2, 2, 0, 1, 0, 4, 4])"
    "length (nums [0, 0, 1, 1, 0, 0, 0, 5, 5]) \<le> length (nums [2, 2, 4, 6, 90, 0, 1, 8, 0])"
    by (simp_all add: arcs_store_def EllipticalArcCommand_def nums_def strict_eq_def)
  from C2_arc_interpolate_values [OF a, of ar "Num (1 / 2)"]
  obtain h1 t1 where r: "interpolate ar arcs_store 0 1 2 (Num (1 / 2)) = (Inr True, h1)"
    "args (h1 ! 0) = Some t1" "length t1 = length (nums [0, 0, 1, 1, 0, 0, 0, 5, 5])"
    and v: "\<forall>i<length (nums [0, 0, 1, 1, 0, 0, 0, 5, 5]). t1 ! i =
           (if i = 5 \<or> i = 6
            then (if strict_eq (Num (1 / 2)) (Num 0) then nums [0, 0, 2, 2, 0, 1, 0, 4, 4] ! i
                  else nums [2, 2, 4, 6, 90, 0, 1, 8, 0] ! i)
            else fadd ar (nums [0, 0, 2, 2, 0, 1, 0, 4, 4] ! i)
                   (fmul ar (fsub ar (nums [2, 2, 4, 6, 90, 0, 1, 8, 0] ! i)
                                     (nums [0, 0, 2, 2, 0, 1, 0, 4, 4] ! i)) (Num (1 / 2))))"
    by blast
  from C2_arc_interpolate_values [OF a, of ar "Num 0"]
  obtain h0 t0 where r0: "interpolate ar arcs_store 0 1 2 (Num 0) = (Inr True, h0)"
    "args (h0 ! 0) = Some t0" "length t0 = length (nums [0, 0, 1, 1, 0, 0, 0, 5, 5])"
    and v0: "\<forall>i<length (nums [0, 0, 1, 1, 0, 0, 0, 5, 5]). t0 ! i =
           (if i = 5 \<or> i = 6
            then (if strict_eq (Num 0) (Num 0) then nums [0, 0, 2, 2, 0, 1, 0, 4, 4] ! i
                  else nums [2, 2, 4, 6, 90, 0, 1, 8, 0] ! i)
            else fadd ar (nums [0, 0, 2, 2, 0, 1, 0, 4, 4] ! i)
                   (fmul ar (fsub ar (nums [2, 2, 4, 6, 90, 0, 1, 8, 0] ! i)
                                     (nums [0, 0, 2, 2, 0, 1, 0, 4, 4] ! i)) (Num 0)))"
    by blast
  have "t1 ! 2 = fadd ar (Num 2) (fmul ar (fsub ar (Num 4) (Num 2)) (Num (1 / 2)))"
    using v [rule_format, of 2] by (simp add: nums_def strict_eq_def)
  moreover have "t1 ! 4 = fadd ar (Num 0) (fmul ar (fsub ar (Num 90) (Num 0)) (Num (1 / 2)))"
    using v [rule_format, of 4] by (simp add: nums_def strict_eq_def)
  moreover have "t1 ! 5 = Num 0" using v [rule_format, of 5] by (simp add: nums_def strict_eq_def)
  moreover have "t1 ! 6 = Num 1" using v [rule_format, of 6] by (simp add: nums_def strict_eq_def)
  moreover have "t1 ! 7 = fadd ar (Num 4) (fmul ar (fsub ar (Num 8) (Num 4)) (Num (1 / 2)))"
    using v [rule_format, of 7] by (simp add: nums_def strict_eq_def)
  moreover have "t0 ! 2 = fadd ar (Num 2) (fmul ar (fsub ar (Num 4) (Num 2)) (Num 0))"
    using v0 [rule_format, of 2] by (simp add: nums_def strict_eq_def)
  moreover have "t0 ! 5 = Num 1" using v0 [rule_format, of 5] by (simp add: nums_def strict_eq_def)
  moreover have "t0 ! 6 = Num 0" using v0 [rule_format, of 6] by (simp add: nums_def strict_eq_def)
  ultimately show "?P ar"
    using r r0 by (simp add: nums_def)
qed

section \<open>C3: how interpolate reports a structural mismatch\<close>

text \<open>
  C3 says that \<open>interpolate\<close> of a command, a subpath or a path returns false and
  changes nothing when the receiver is not morphable with \<open>start\<close> or with \<open>end\<close>,
  and that a structural mismatch is never reported by throwing. The first half holds
  (X8 below). The second does not: an arc is morphable with every command (C1), so
  its \<open>interpolate\<close>, which has no guard of its own, reads \<open>start.args\<close> of a line
  and raises a TypeError, whatever the fraction and the arithmetic. The same happens
  one and two levels up: the subpath \<open>M A\<close> and the path that holds it pass the
  guard against \<open>M L\<close>, the loop over the commands interpolates the move, and the
  arc then raises, so that the caller is left with the TypeError and with a subpath
  of which the first command has been written.
\<close>

theorem C3_structural_mismatch_throws:
  "ctor (arc_store ! 1) \<noteq> ctor (arc_store ! 3)
   \<and> isMorphableWith (arc_store ! 1) (arc_store ! 3)
   \<and> interpolate ar arc_store 1 3 3 fraction = (Inl TypeError, arc_store)
   \<and> SubPathCommand_isMorphableWith arc_store [0, 1] [2, 3]
   \<and> SubPathCommand_interpolate ar arc_store [0, 1] [2, 3] [2, 3] fraction
       = (Inl TypeError,
          arc_store[0 := MoveCommand None
                           (Some (Point (lerp ar (Num 0) (Num 0) fraction)
                                        (lerp ar (Num 0) (Num 0) fraction)))])
   \<and> PathCommand_isMorphableWith arc_store [[0, 1]] [[2, 3]]
   \<and> PathCommand_interpolate ar arc_store [[0, 1]] [[2, 3]] [[2, 3]] fraction
       = (Inl TypeError,
          arc_store[0 := MoveCommand None
                           (Some (Point (lerp ar (Num 0) (Num 0) fraction)
                                        (lerp ar (Num 0) (Num 0) fraction)))])"
  by (simp add: arc_store_def pt_def MoveCommand_def LineCommand_def
          EllipticalArcCommand_def nums_def isMorphableWith_def
          DrawCommand_isMorphableWith_def
          EllipticalArcCommand_isMorphableWith_def SubPathCommand_isMorphableWith_def
          PathCommand_isMorphableWith_def pt_at_def set_point_def)

section \<open>C4: the exposed start and end of an arc\<close>

text \<open>
  C4 says that the start and end points an arc exposes are \<open>(args[0], args[1])\<close> and
  \<open>(args[7], args[8])\<close> at every moment, also after \<open>reverse\<close>. The getters read
  \<open>points_\<close>, which the constructor fills from \<open>args\<close> and no method of the arc
  updates: after \<open>reverse\<close> of the arc from (0,0) to (5,5), \<open>args\<close> starts at (5,5)
  and ends at (0,0), while the exposed start is still (0,0) and the exposed end (5,5).
\<close>

theorem C4_arc_reverse_leaves_points_stale:
  "args (reverse (EllipticalArcCommand (nums [0, 0, 1, 1, 0, 0, 0, 5, 5])))
     = Some (nums [5, 5, 1, 1, 0, 0, 1, 0, 0])
   \<and> cmd_start (reverse (EllipticalArcCommand (nums [0, 0, 1, 1, 0, 0, 0, 5, 5]))) = pt 0 0
   \<and> cmd_end (reverse (EllipticalArcCommand (nums [0, 0, 1, 1, 0, 0, 0, 5, 5]))) = pt 5 5"
  by (simp add: EllipticalArcCommand_def nums_def strict_eq_def reverse_def
          EllipticalArcCommand_reverse_def
          cmd_start_def cmd_end_def pt_def)

section \<open>C5: reversing a subpath twice\<close>

text \<open>
  C5 says that two calls of \<open>reverse\<close> restore the command sequence of every
  subpath. On \<open>M 0,0 Q 5,5 10,0 L 10,10 Z\<close> they do not: the first call promotes the
  reversed curve, now last, to a \<open>ClosePathCommand\<close> built from its start and end
  only, so the control point is lost, and after the second call the command at
  position 1 is a line from (0,0) to (10,0) where the curve was.
\<close>

theorem C5_reverse_twice_loses_curve:
  "commands_of curved_store subpath0123 =
     [MoveCommand None (pt 0 0), QuadraticCurveCommand (pt 0 0) (pt 5 5) (pt 10 0),
      LineCommand (pt 10 0) (pt 10 10), ClosePathCommand (pt 10 10) (pt 0 0)]
   \<and> outcome (and_then (SubPathCommand_reverse curved_store subpath0123)
                       SubPathCommand_reverse) =
     Inr [MoveCommand None (pt 0 0), LineCommand (pt 0 0) (pt 10 0),
          LineCommand (pt 10 0) (pt 10 10), ClosePathCommand (pt 10 10) (pt 0 0)]"
  by (simp add: curved_store_def QuadraticCurveCommand_def and_then_def subpath0123_def
          pt_def MoveCommand_def LineCommand_def ClosePathCommand_def commands_of_def
          outcome_def SubPathCommand_reverse_def alloc_def reverse_def
          DrawCommand_reverse_def cmd_start_def cmd_end_def Let_def)

section \<open>C6: reversing the square\<close>

text \<open>
  C6, as stated: on the square, \<open>isClosed\<close> is true and \<open>reverse\<close> yields
  \<open>[Move(_, (0,0)), Line((10,10),(0,0)), Line((10,0),(10,10)), Close((0,0),(10,0))]\<close>.
  That sequence lists the old commands in reverse order with their points as they
  were; \<open>reverse\<close> also reverses the points of every command it keeps.
\<close>

theorem C6_reverse_square_counterexample:
  "outcome (SubPathCommand_reverse square_store subpath0123) \<noteq>
     Inr [MoveCommand None (pt 0 0), LineCommand (pt 10 10) (pt 0 0),
          LineCommand (pt 10 0) (pt 10 10), ClosePathCommand (pt 0 0) (pt 10 0)]"
  by (simp add: square_store_def subpath0123_def pt_def MoveCommand_def LineCommand_def
          ClosePathCommand_def commands_of_def outcome_def SubPathCommand_reverse_def
          alloc_def reverse_def DrawCommand_reverse_def cmd_start_def cmd_end_def Let_def)

text \<open>
  C6, amended: on the square, \<open>isClosed\<close> is true, and \<open>reverse\<close> yields
  \<open>[Move(_, (0,0)), Line((0,0),(10,10)), Line((10,10),(10,0)), Close((10,0),(0,0))]\<close>,
  a subpath whose start is still (0,0).
\<close>

theorem C6_reverse_square:
  "isClosed square_store subpath0123 = Inr True
   \<and> outcome (SubPathCommand_reverse square_store subpath0123) =
       Inr [MoveCommand None (pt 0 0), LineCommand (pt 0 0) (pt 10 10),
            LineCommand (pt 10 10) (pt 10 0), ClosePathCommand (pt 10 0) (pt 0 0)]
   \<and> (case SubPathCommand_reverse square_store subpath0123 of
         (Inl e, h) \<Rightarrow> Inl e
       | (Inr cmds, h) \<Rightarrow> SubPathCommand_start h cmds) = Inr (pt 0 0)"
  by (simp add: square_store_def subpath0123_def pt_def MoveCommand_def LineCommand_def
          ClosePathCommand_def commands_of_def outcome_def SubPathCommand_reverse_def
          alloc_def reverse_def DrawCommand_reverse_def cmd_start_def cmd_end_def
          isClosed_def strict_eq_def SubPathCommand_start_def SubPathCommand_end_def Let_def)

section \<open>C7: shiftBack\<close>

text \<open>
  C7: on a subpath with one command, and on one that is not closed, \<open>shiftBack\<close>
  does nothing. On a closed subpath with more than one command it moves the last
  command to the front (\<open>rot\<close>); then, if the command now in front is a
  \<open>ClosePathCommand\<close>, the last command becomes a \<open>ClosePathCommand\<close> with the same
  start and end, and after that the second command becomes a \<open>LineCommand\<close> with the
  start and end of the command in front; otherwise the second command becomes the
  command in front. Finally the first command becomes a \<open>MoveCommand\<close> from the start
  point the first command had before the rotation to the start point of the new
  second command. The steps are list updates in this order (in a subpath of two
  commands the last slot is the second slot, and the later write stays). The commands
  are given by value, as a caller reads them through the subpath; no command that
  existed before is changed.
\<close>

theorem C7_shiftBack:
  "(length cmds = 1 \<longrightarrow> shiftBack h cmds = (Inr cmds, h))
   \<and> (isClosed h cmds = Inr False \<longrightarrow> shiftBack h cmds = (Inr cmds, h))
   \<and> (1 < length cmds \<and> isClosed h cmds = Inr True \<and> list_all (\<lambda>a. a < length h) cmds \<longrightarrow>
        (\<exists>cmds' h'. shiftBack h cmds = (Inr cmds', h') \<and> take (length h) h' = h
           \<and> (let old = commands_of h cmds; n = length old; rot = last old # butlast old;
                   r = (if ctor (rot ! 0) = ClosePath
                        then (rot[n - 1 := ClosePathCommand (cmd_start (rot ! (n - 1)))
                                                            (cmd_end (rot ! (n - 1)))])
                               [1 := LineCommand (cmd_start (rot ! 0)) (cmd_end (rot ! 0))]
                        else rot[1 := rot ! 0])
               in commands_of h' cmds' =
                    r[0 := MoveCommand (cmd_start (old ! 0)) (cmd_start (r ! 1))])))"
proof (intro conjI impI)
  assume "length cmds = 1"
  then show "shiftBack h cmds = (Inr cmds, h)"
    by (simp add: shiftBack_def)
next
  assume "isClosed h cmds = Inr False"
  then show "shiftBack h cmds = (Inr cmds, h)"
    by (simp add: shiftBack_def)
next
  assume "1 < length cmds \<and> isClosed h cmds = Inr True \<and> list_all (\<lambda>a. a < length h) cmds"
  then show "\<exists>cmds' h'. shiftBack h cmds = (Inr cmds', h') \<and> take (length h) h' = h
           \<and> (let old = commands_of h cmds; n = length old; rot = last old # butlast old;
                   r = (if ctor (rot ! 0) = ClosePath
                        then (rot[n - 1 := ClosePathCommand (cmd_start (rot ! (n - 1)))
                                                            (cmd_end (rot ! (n - 1)))])
                               [1 := LineCommand (cmd_start (rot ! 0)) (cmd_end (rot ! 0))]
                        else rot[1 := rot ! 0])
               in commands_of h' cmds' =
                    r[0 := MoveCommand (cmd_start (old ! 0)) (cmd_start (r ! 1))])"
    using shiftBack_closed_result [of cmds h] by blast
qed

text \<open>A single move, the open path \<open>M L L\<close>, and the square.\<close>

theorem C7_shiftBack_witness:
  "length [0::nat] = 1 \<and> shiftBack square_store [0] = (Inr [0], square_store)
   \<and> isClosed square_store [0, 1, 2] = Inr False
   \<and> shiftBack square_store [0, 1, 2] = (Inr [0, 1, 2], square_store)
   \<and> 1 < length subpath0123 \<and> isClosed square_store subpath0123 = Inr True
   \<and> list_all (\<lambda>a. a < length square_store) subpath0123
   \<and> (\<exists>cmds' h'. shiftBack square_store subpath0123 = (Inr cmds', h')
         \<and> take (length square_store) h' = square_store
         \<and> commands_of h' cmds' =
             [MoveCommand None (pt 10 10), LineCommand (pt 10 10) (pt 0 0),
              LineCommand (pt 0 0) (pt 10 0), ClosePathCommand (pt 10 0) (pt 10 10)])"
proof -
  have one: "length [0::nat] = 1"
    by simp
  have "open": "isClosed square_store [0, 1, 2] = Inr False"
    by (simp add: square_store_def pt_def MoveCommand_def LineCommand_def
            ClosePathCommand_def cmd_end_def isClosed_def strict_eq_def SubPathCommand_start_def
            SubPathCommand_end_def)
  have closed: "1 < length subpath0123 \<and> isClosed square_store subpath0123 = Inr True
                \<and> list_all (\<lambda>a. a < length square_store) subpath0123"
    by (simp add: square_store_def subpath0123_def pt_def MoveCommand_def LineCommand_def
            ClosePathCommand_def cmd_end_def isClosed_def strict_eq_def SubPathCommand_start_def
            SubPathCommand_end_def)
  have old: "commands_of square_store subpath0123 =
               [MoveCommand None (pt 0 0), LineCommand (pt 0 0) (pt 10 0),
                LineCommand (pt 10 0) (pt 10 10), ClosePathCommand (pt 10 10) (pt 0 0)]"
    by (simp add: square_store_def subpath0123_def commands_of_def)
  from C7_shiftBack [of "[0]" square_store] one
  have a: "shiftBack square_store [0] = (Inr [0], square_store)"
    by blast
  from C7_shiftBack [of "[0, 1, 2]" square_store] "open"
  have b: "shiftBack square_store [0, 1, 2] = (Inr [0, 1, 2], square_store)"
    by blast
  from C7_shiftBack [of subpath0123 square_store] closed
  obtain cmds' h' where run: "shiftBack square_store subpath0123 = (Inr cmds', h')"
    and kept: "take (length square_store) h' = square_store"
    and vals: "(let old = commands_of square_store subpath0123; n = length old;
                    rot = last old # butlast old;
                    r = (if ctor (rot ! 0) = ClosePath
                         then (rot[n - 1 := ClosePathCommand (cmd_start (rot ! (n - 1)))
                                                             (cmd_end (rot ! (n - 1)))])
                                [1 := LineCommand (cmd_start (rot ! 0)) (cmd_end (rot ! 0))]
                         else rot[1 := rot ! 0])
                in commands_of h' cmds' =
                     r[0 := MoveCommand (cmd_start (old ! 0)) (cmd_start (r ! 1))])"
    by blast
  from vals have "commands_of h' cmds' =
             [MoveCommand None (pt 10 10), LineCommand (pt 10 10) (pt 0 0),
              LineCommand (pt 0 0) (pt 10 0), ClosePathCommand (pt 10 0) (pt 10 10)]"
    unfolding old by (simp add: Let_def MoveCommand_def LineCommand_def ClosePathCommand_def
            cmd_start_def cmd_end_def pt_def)
  with one a "open" b closed run kept show ?thesis
    by blast
qed

section \<open>C8: shiftBack followed by shiftForward\<close>

text \<open>
  C8 says that \<open>shiftBack\<close> followed by \<open>shiftForward\<close> restores the start point and
  the command order of every closed subpath with more than one command. On
  \<open>M 0,0 Q 5,5 10,0 L 10,10 Z\<close> the start point comes back, but the second of the
  three calls of \<open>shiftBack\<close> turns the curve, then last, into a \<open>ClosePathCommand\<close>
  built from its start and end only: the result has a line from (0,0) to (10,0) at
  position 1 where the curve was.
\<close>

theorem C8_shift_round_trip_loses_curve:
  "isClosed curved_store subpath0123 = Inr True
   \<and> outcome (and_then (shiftBack curved_store subpath0123) shiftForward) =
     Inr [MoveCommand None (pt 0 0), LineCommand (pt 0 0) (pt 10 0),
          LineCommand (pt 10 0) (pt 10 10), ClosePathCommand (pt 10 10) (pt 0 0)]"
  by (simp add: curved_store_def QuadraticCurveCommand_def subpath0123_def pt_def
          MoveCommand_def LineCommand_def ClosePathCommand_def commands_of_def outcome_def
          and_then_def shiftBack_def shiftForward_def shiftForward_loop.simps alloc_def
          cmd_start_def cmd_end_def isClosed_def strict_eq_def SubPathCommand_start_def
          SubPathCommand_end_def Let_def)

section \<open>C9: interpolate writes into the receiver only\<close>

text \<open>
  C9: \<open>interpolate\<close> on a command \<open>this\<close> that is a different object from \<open>start\<close>
  and from \<open>end\<close> leaves \<open>start\<close> and \<open>end\<close> as they were, points and arguments
  alike: whatever the call returns, the store has the same objects afterwards and
  every object other than \<open>this\<close> is unchanged.
\<close>

theorem C9_interpolate_writes_only_this:
  assumes "interpolate ar h this start end' fraction = (r, h')"
    and "this \<noteq> start" and "this \<noteq> end'"
  shows "h' ! start = h ! start \<and> h' ! end' = h ! end'
         \<and> length h' = length h \<and> (\<forall>a. a \<noteq> this \<longrightarrow> h' ! a = h ! a)"
proof -
  have "length h' = length h"
    by (rule interpolate_frame(1) [OF assms(1)])
  moreover have "\<forall>a. a \<noteq> this \<longrightarrow> h' ! a = h ! a"
    using interpolate_frame(2) [OF assms(1)] by blast
  ultimately show ?thesis
    using assms(2,3) by auto
qed

text \<open>A line interpolated between a second line and itself, in any arithmetic.\<close>

theorem C9_interpolate_writes_only_this_witness:
  "\<forall>ar.
     interpolate ar square_store 1 2 2 (Num (1 / 2)) = (Inr True, square_store[1 := moved_line ar])
     \<and> (1::nat) \<noteq> 2
     \<and> square_store[1 := moved_line ar] ! 2 = square_store ! 2
     \<and> length (square_store[1 := moved_line ar]) = length square_store"
  (is "\<forall>ar. ?P ar")
proof
  fix ar
  have run: "interpolate ar square_store 1 2 2 (Num (1 / 2))
     = (Inr True, square_store[1 := moved_line ar])"
    by (simp add: square_store_def moved_line_def pt_def MoveCommand_def LineCommand_def
            ClosePathCommand_def isMorphableWith_def DrawCommand_isMorphableWith_def
            pt_at_def set_point_def)
  from C9_interpolate_writes_only_this [OF run] run show "?P ar"
    by simp
qed

section \<open>C10: the operations keep tag, point count and morphability\<close>

text \<open>
  C10: \<open>interpolate\<close>, \<open>transform\<close> and \<open>reverse\<close> on a command keep its constructor,
  its type tag \<open>svgChar\<close>, the number of its points and the length of its argument
  vector (\<open>same_shape\<close>); so whether two commands are morphable with each other is
  the same before and after any of them. For \<open>transform\<close> and \<open>reverse\<close> the command
  is one the constructors can build (\<open>wf_cmd\<close>: an arc has nine arguments), since
  both write the fixed indices up to 8 of an arc's vector.
\<close>

theorem C10_operations_keep_shape:
  "(interpolate ar h this s e fraction = (r, h') \<longrightarrow>
      length h' = length h
      \<and> (\<forall>a. same_shape (h ! a) (h' ! a))
      \<and> (\<forall>a b. isMorphableWith (h' ! a) (h' ! b) = isMorphableWith (h ! a) (h ! b)))
   \<and> (wf_cmd c \<longrightarrow>
      same_shape c (transform tp ta c) \<and> wf_cmd (transform tp ta c)
      \<and> isMorphableWith (transform tp ta c) d = isMorphableWith c d
      \<and> isMorphableWith d (transform tp ta c) = isMorphableWith d c)
   \<and> (wf_cmd c \<longrightarrow>
      same_shape c (reverse c) \<and> wf_cmd (reverse c)
      \<and> isMorphableWith (reverse c) d = isMorphableWith c d
      \<and> isMorphableWith d (reverse c) = isMorphableWith d c)"
proof (intro conjI impI allI)
  assume run: "interpolate ar h this s e fraction = (r, h')"
  show "length h' = length h"
    by (rule interpolate_frame(1) [OF run])
  show "same_shape (h ! a) (h' ! a)" for a
    by (rule interpolate_frame(3) [OF run])
  show "isMorphableWith (h' ! a) (h' ! b) = isMorphableWith (h ! a) (h ! b)" for a b
    by (rule same_shape_morphable) (rule interpolate_frame(3) [OF run])+
next
  assume "wf_cmd c"
  then show "wf_cmd (transform tp ta c)"
    by (simp add: same_shape_wf [OF transform_shape])
next
  assume "wf_cmd c"
  then show "wf_cmd (reverse c)"
    by (simp add: same_shape_wf [OF reverse_shape])
qed (simp_all add: transform_shape reverse_shape
       same_shape_morphable [OF transform_shape same_shape_refl]
       same_shape_morphable [OF same_shape_refl transform_shape]
       same_shape_morphable [OF reverse_shape same_shape_refl]
       same_shape_morphable [OF same_shape_refl reverse_shape])


text \<open>A line interpolated in the square, in any arithmetic, and an arc transformed
  (by a routine that exchanges the two coordinates of a point) and reversed.\<close>

theorem C10_operations_keep_shape_witness:
  "\<forall>ar.
     interpolate ar square_store 1 2 2 (Num (1 / 2)) = (Inr True, square_store[1 := moved_line ar])
     \<and> length (square_store[1 := moved_line ar]) = length square_store
     \<and> same_shape (square_store ! 1) (square_store[1 := moved_line ar] ! 1)
     \<and> wf_cmd (arc_store ! 1)
     \<and> same_shape (arc_store ! 1)
          (transform (\<lambda>p. Point (py p) (px p)) (\<lambda>a. a) (arc_store ! 1))
     \<and> same_shape (arc_store ! 1) (reverse (arc_store ! 1))
     \<and> wf_cmd (reverse (arc_store ! 1))
     \<and> isMorphableWith (arc_store ! 3) (reverse (arc_store ! 1))
         = isMorphableWith (arc_store ! 3) (arc_store ! 1)"
  (is "\<forall>ar. ?P ar")
proof
  fix ar
  have run: "interpolate ar square_store 1 2 2 (Num (1 / 2))
     = (Inr True, square_store[1 := moved_line ar])"
    by (simp add: square_store_def moved_line_def pt_def MoveCommand_def LineCommand_def
            ClosePathCommand_def isMorphableWith_def DrawCommand_isMorphableWith_def
            pt_at_def set_point_def)
  have wf: "wf_cmd (arc_store ! 1)"
    by (simp add: wf_cmd_def arc_store_def EllipticalArcCommand_def nums_def strict_eq_def)
  from run wf
    C10_operations_keep_shape
      [of ar square_store 1 2 2 "Num (1 / 2)" "Inr True"
          "square_store[1 := moved_line ar]" "arc_store ! 1"
          "\<lambda>p. Point (py p) (px p)" "\<lambda>a. a" "arc_store ! 3"]
  show "?P ar"
    by blast
qed

section \<open>Further properties\<close>

text \<open>
  X1: when the receiver is not an arc, \<open>isMorphableWith\<close> is true exactly for an
  argument of the same constructor with the same number of points. This is the part
  of C1 that the code satisfies.
\<close>

theorem X1_morphable_point_commands:
  "ctor this \<noteq> EllipticalArc \<Longrightarrow>
     isMorphableWith this command
       = (ctor this = ctor command \<and> length (points this) = length (points command))"
  by (simp add: isMorphableWith_def DrawCommand_isMorphableWith_def)

text \<open>A line against a line, a close-path and an arc.\<close>

theorem X1_morphable_point_commands_witness:
  "ctor (LineCommand (pt 0 0) (pt 1 1)) \<noteq> EllipticalArc
   \<and> isMorphableWith (LineCommand (pt 0 0) (pt 1 1)) (LineCommand (pt 2 2) (pt 3 3))
   \<and> \<not> isMorphableWith (LineCommand (pt 0 0) (pt 1 1)) (ClosePathCommand (pt 2 2) (pt 3 3))
   \<and> \<not> isMorphableWith (LineCommand (pt 0 0) (pt 1 1))
         (EllipticalArcCommand (nums [0, 0, 1, 1, 0, 0, 0, 5, 5]))"
proof -
  have a: "ctor (LineCommand (pt 0 0) (pt 1 1)) \<noteq> EllipticalArc"
    by (simp add: LineCommand_def)
  show ?thesis
    using a
      X1_morphable_point_commands [OF a, of "LineCommand (pt 2 2) (pt 3 3)"]
      X1_morphable_point_commands [OF a, of "ClosePathCommand (pt 2 2) (pt 3 3)"]
      X1_morphable_point_commands [OF a, of "EllipticalArcCommand (nums [0, 0, 1, 1, 0, 0, 0, 5, 5])"]
    by (simp add: LineCommand_def ClosePathCommand_def EllipticalArcCommand_def nums_def strict_eq_def)
qed

text \<open>
  X2: right after construction, the start an arc exposes is \<open>(args[0], args[1])\<close> and
  its end \<open>(args[7], args[8])\<close>; the constructor keeps the vector it is given, and
  the arc is well formed when the vector has nine entries. This is the part of C4
  that the code satisfies.
\<close>

theorem X2_arc_constructor_points:
  "cmd_start (EllipticalArcCommand as) = Some (Point (as ! 0) (as ! 1))
   \<and> cmd_end (EllipticalArcCommand as) = Some (Point (as ! 7) (as ! 8))
   \<and> args (EllipticalArcCommand as) = Some as
   \<and> wf_cmd (EllipticalArcCommand as) = (length as = 9)"
  by (simp add: EllipticalArcCommand_def nums_def strict_eq_def cmd_start_def cmd_end_def wf_cmd_def)

text \<open>
  X3: \<open>reverse\<close> applied twice to one command gives the command back: for a command
  with points when it has no start point or has an end point, for an arc with nine
  arguments when its sweep flag is 0 or 1.
\<close>

theorem X3_reverse_twice_command:
  "(ctor c \<noteq> EllipticalArc \<and> (cmd_start c = None \<or> cmd_end c \<noteq> None)
      \<longrightarrow> reverse (reverse c) = c)
   \<and> (ctor c = EllipticalArc \<and> args c = Some a \<and> length a = 9
        \<and> (a ! 6 = Num 0 \<or> a ! 6 = Num 1)
      \<longrightarrow> reverse (reverse c) = c)"
proof (intro conjI impI)
  assume h: "ctor c \<noteq> EllipticalArc \<and> (cmd_start c = None \<or> cmd_end c \<noteq> None)"
  show "reverse (reverse c) = c"
  proof (cases "cmd_start c")
    case None
    with h show ?thesis
      by (simp add: reverse_def DrawCommand_reverse_def)
  next
    case (Some p)
    then have ne: "points c \<noteq> []"
      by (auto simp: cmd_start_def)
    with h Some obtain q where "last (points c) = Some q"
      by (auto simp: cmd_end_def)
    with ne have "cmd_start (c\<lparr>points := rev (points c)\<rparr>) = Some q"
      by (cases "points c" rule: rev_cases) (simp_all add: cmd_start_def)
    with h Some show ?thesis
      by (simp add: reverse_def DrawCommand_reverse_def)
  qed
next
  assume h: "ctor c = EllipticalArc \<and> args c = Some a \<and> length a = 9
             \<and> (a ! 6 = Num 0 \<or> a ! 6 = Num 1)"
  then obtain a0 a1 a2 a3 a4 a5 a6 a7 a8 where a: "a = [a0, a1, a2, a3, a4, a5, a6, a7, a8]"
    by (auto simp: length_Suc_conv eval_nat_numeral)
  with h have "a6 = Num 0 \<or> a6 = Num 1"
    by simp
  with h a show "reverse (reverse c) = c"
    by (auto simp: reverse_def EllipticalArcCommand_reverse_def strict_eq_def Let_def)
qed

text \<open>A line, a first move without start point, and an arc.\<close>

theorem X3_reverse_twice_command_witness:
  "reverse (reverse (LineCommand (pt 0 0) (pt 1 1))) = LineCommand (pt 0 0) (pt 1 1)
   \<and> reverse (reverse (MoveCommand None (pt 1 1))) = MoveCommand None (pt 1 1)
   \<and> reverse (reverse (EllipticalArcCommand (nums [0, 0, 1, 1, 0, 0, 0, 5, 5])))
       = EllipticalArcCommand (nums [0, 0, 1, 1, 0, 0, 0, 5, 5])"
proof -
  have l: "ctor (LineCommand (pt 0 0) (pt 1 1)) \<noteq> EllipticalArc
           \<and> (cmd_start (LineCommand (pt 0 0) (pt 1 1)) = None
              \<or> cmd_end (LineCommand (pt 0 0) (pt 1 1)) \<noteq> None)"
    by (simp add: LineCommand_def cmd_start_def cmd_end_def pt_def)
  have m: "ctor (MoveCommand None (pt 1 1)) \<noteq> EllipticalArc
           \<and> (cmd_start (MoveCommand None (pt 1 1)) = None
              \<or> cmd_end (MoveCommand None (pt 1 1)) \<noteq> None)"
    by (simp add: MoveCommand_def cmd_start_def cmd_end_def pt_def)
  have a: "ctor (EllipticalArcCommand (nums [0, 0, 1, 1, 0, 0, 0, 5, 5])) = EllipticalArc
           \<and> args (EllipticalArcCommand (nums [0, 0, 1, 1, 0, 0, 0, 5, 5]))
               = Some (nums [0, 0, 1, 1, 0, 0, 0, 5, 5])
           \<and> length (nums [0, 0, 1, 1, 0, 0, 0, 5, 5]) = 9
           \<and> (nums [0, 0, 1, 1, 0, 0, 0, 5, 5] ! 6 = Num 0
              \<or> nums [0, 0, 1, 1, 0, 0, 0, 5, 5] ! 6 = Num 1)"
    by (simp add: EllipticalArcCommand_def nums_def strict_eq_def)
  from l m a
    X3_reverse_twice_command [of "LineCommand (pt 0 0) (pt 1 1)"]
    X3_reverse_twice_command [of "MoveCommand None (pt 1 1)"]
    X3_reverse_twice_command [of "EllipticalArcCommand (nums [0, 0, 1, 1, 0, 0, 0, 5, 5])"
                                 "nums [0, 0, 1, 1, 0, 0, 0, 5, 5]"]
  show ?thesis
    by blast
qed

text \<open>
  X4: on the square, whose segments are lines, two calls of \<open>reverse\<close> restore the
  command sequence, and so does \<open>shiftBack\<close> followed by \<open>shiftForward\<close>.
\<close>

theorem X4_square_round_trips:
  "outcome (and_then (SubPathCommand_reverse square_store subpath0123) SubPathCommand_reverse)
     = Inr (commands_of square_store subpath0123)
   \<and> outcome (and_then (shiftBack square_store subpath0123) shiftForward)
     = Inr (commands_of square_store subpath0123)"
  by (simp add: square_store_def SubPathCommand_reverse_def reverse_def
          DrawCommand_reverse_def subpath0123_def pt_def MoveCommand_def LineCommand_def
          ClosePathCommand_def commands_of_def outcome_def and_then_def shiftBack_def
          shiftForward_def shiftForward_loop.simps alloc_def cmd_start_def cmd_end_def
          isClosed_def strict_eq_def SubPathCommand_start_def SubPathCommand_end_def Let_def)

text \<open>
  X5: on a command that is not an arc and is morphable with \<open>start\<close> and with \<open>end\<close>,
  \<open>interpolate\<close> returns true, keeps the number of points, and sets the point at every
  index where \<open>start\<close> and \<open>end\<close> both have one to
  \<open>(lerp(sx, ex, fraction), lerp(sy, ey, fraction))\<close>; the other entries stay.
  The points of \<open>start\<close> and \<open>end\<close> are those before the call, so the statement also
  covers a call in which \<open>this\<close> is \<open>start\<close> or \<open>end\<close>.
\<close>

theorem X5_interpolate_point_values:
  assumes "ctor (h ! this) \<noteq> EllipticalArc" and "this < length h"
    and "isMorphableWith (h ! this) (h ! start)" and "isMorphableWith (h ! this) (h ! end')"
  shows "\<exists>h'. interpolate ar h this start end' fraction = (Inr True, h')
           \<and> length (points (h' ! this)) = length (points (h ! this))
           \<and> (\<forall>i<length (points (h ! this)).
                 points (h' ! this) ! i =
                   (case (points (h ! start) ! i, points (h ! end') ! i) of
                      (Some s, Some e) \<Rightarrow>
                        Some (Point (lerp ar (px s) (px e) fraction)
                                    (lerp ar (py s) (py e) fraction))
                    | _ \<Rightarrow> points (h ! this) ! i))"
proof -
  from assms have ls: "length (points (h ! start)) = length (points (h ! this))"
    and le: "length (points (h ! end')) = length (points (h ! this))"
    by (simp_all add: isMorphableWith_def DrawCommand_isMorphableWith_def)
  have "distinct [0..<length (points (h ! this))]"
    and "\<forall>i\<in>set [0..<length (points (h ! this))]. i < length (points (h ! this))"
    by simp_all
  from DrawCommand_interpolate_loop_values [OF this assms(2) refl refl refl ls le, of ar fraction]
  have "length (points (DrawCommand_interpolate_loop ar h this start end' fraction
                  [0..<length (points (h ! this))] ! this)) = length (points (h ! this))
        \<and> (\<forall>i<length (points (h ! this)).
              points (DrawCommand_interpolate_loop ar h this start end' fraction
                  [0..<length (points (h ! this))] ! this) ! i
              = lerp_point ar (points (h ! start) ! i) (points (h ! end') ! i) fraction
                  (points (h ! this) ! i))"
    by auto
  with assms ls show ?thesis
    by (simp add: lerp_point_def cong: option.case_cong)
qed

text \<open>The first line of the square interpolated half way between itself and the
  second line, in any arithmetic.\<close>

theorem X5_interpolate_point_values_witness:
  "\<forall>ar. \<exists>h'. interpolate ar square_store 1 1 2 (Num (1 / 2)) = (Inr True, h')
      \<and> length (points (h' ! 1)) = 2
      \<and> points (h' ! 1) ! 0
          = Some (Point (lerp ar (Num 0) (Num 10) (Num (1 / 2)))
                     (lerp ar (Num 0) (Num 0) (Num (1 / 2))))
      \<and> points (h' ! 1) ! 1
          = Some (Point (lerp ar (Num 10) (Num 10) (Num (1 / 2)))
                     (lerp ar (Num 0) (Num 10) (Num (1 / 2))))"
  (is "\<forall>ar. ?P ar")
proof
  fix ar
  have a: "ctor (square_store ! 1) \<noteq> EllipticalArc" "1 < length square_store"
    "isMorphableWith (square_store ! 1) (square_store ! 1)"
    "isMorphableWith (square_store ! 1) (square_store ! 2)"
    by (simp_all add: square_store_def LineCommand_def isMorphableWith_def
          DrawCommand_isMorphableWith_def)
  have p1: "points (square_store ! 1) = [pt 0 0, pt 10 0]"
    and p2: "points (square_store ! 2) = [pt 10 0, pt 10 10]"
    by (simp_all add: square_store_def LineCommand_def)
  from X5_interpolate_point_values [OF a, of ar "Num (1 / 2)"]
  obtain h' where r: "interpolate ar square_store 1 1 2 (Num (1 / 2)) = (Inr True, h')"
    "length (points (h' ! 1)) = length (points (square_store ! 1))"
    and v: "\<forall>i<length (points (square_store ! 1)).
              points (h' ! 1) ! i =
                (case (points (square_store ! 1) ! i, points (square_store ! 2) ! i) of
                   (Some s, Some e) \<Rightarrow>
                     Some (Point (lerp ar (px s) (px e) (Num (1 / 2)))
                                 (lerp ar (py s) (py e) (Num (1 / 2))))
                 | _ \<Rightarrow> points (square_store ! 1) ! i)"
    by blast
  note v' = v [unfolded p1 p2, rule_format]
  have len: "length (points (h' ! 1)) = 2"
    using r(2) unfolding p1 by simp
  have v0: "points (h' ! 1) ! 0
          = Some (Point (lerp ar (Num 0) (Num 10) (Num (1 / 2)))
                     (lerp ar (Num 0) (Num 0) (Num (1 / 2))))"
    using v' [of 0] by (simp add: pt_def)
  have v1: "points (h' ! 1) ! 1
          = Some (Point (lerp ar (Num 10) (Num 10) (Num (1 / 2)))
                     (lerp ar (Num 0) (Num 10) (Num (1 / 2))))"
    using v' [of 1] by (simp add: pt_def)
  from r(1) len v0 v1 show "?P ar"
    by blast
qed

text \<open>
  X6: on a subpath of more than one command whose references are valid and pairwise
  different, \<open>SubPathCommand.reverse\<close> leaves the command sequence
  \<open>reverse_by_value\<close> of the old one.
\<close>

theorem X6_reverse_by_value:
  assumes "1 < length cmds" and "distinct cmds" and "list_all (\<lambda>a. a < length h) cmds"
  shows "outcome (SubPathCommand_reverse h cmds) = Inr (reverse_by_value (commands_of h cmds))"
  using SubPathCommand_reverse_result [OF assms] by (auto simp: outcome_def)

text \<open>The square.\<close>

theorem X6_reverse_by_value_witness:
  "1 < length subpath0123 \<and> distinct subpath0123
   \<and> list_all (\<lambda>a. a < length square_store) subpath0123
   \<and> outcome (SubPathCommand_reverse square_store subpath0123) =
       Inr [MoveCommand None (pt 0 0), LineCommand (pt 0 0) (pt 10 10),
            LineCommand (pt 10 10) (pt 10 0), ClosePathCommand (pt 10 0) (pt 0 0)]"
proof -
  have a: "1 < length subpath0123" "distinct subpath0123"
    "list_all (\<lambda>a. a < length square_store) subpath0123"
    by (simp_all add: subpath0123_def square_store_def)
  have "reverse_by_value (commands_of square_store subpath0123) =
       [MoveCommand None (pt 0 0), LineCommand (pt 0 0) (pt 10 10),
        LineCommand (pt 10 10) (pt 10 0), ClosePathCommand (pt 10 0) (pt 0 0)]"
    by (simp add: reverse_by_value_def commands_of_def subpath0123_def square_store_def
          pt_def Let_def reverse_two_points two_point_simps)
  with a X6_reverse_by_value [OF a] show ?thesis
    by simp
qed

text \<open>
  X7: on such a subpath that is a \<open>polyline\<close> (a move to the start of the first
  segment, segments with start and end point and no arc, a \<open>ClosePathCommand\<close> last
  or nowhere, and a line as first segment when there is one), two calls of
  \<open>reverse\<close> restore the command sequence. This is where C5 holds: the segment that
  the first call turns into a \<open>ClosePathCommand\<close> has no control points to lose.
\<close>

theorem X7_reverse_twice_polyline:
  assumes "1 < length cmds" and "distinct cmds" and "list_all (\<lambda>a. a < length h) cmds"
    and "polyline (commands_of h cmds)"
  shows "outcome (and_then (SubPathCommand_reverse h cmds) SubPathCommand_reverse)
           = Inr (commands_of h cmds)"
proof -
  from SubPathCommand_reverse_result [OF assms(1-3)]
  obtain cmds' h' where r1: "SubPathCommand_reverse h cmds = (Inr cmds', h')"
    and v1: "commands_of h' cmds' = reverse_by_value (commands_of h cmds)"
    and ok: "length cmds' = length cmds" "distinct cmds'"
            "list_all (\<lambda>a. a < length h') cmds'"
    by blast
  from ok(1) assms(1) have n': "1 < length cmds'"
    by simp
  from SubPathCommand_reverse_result [OF n' ok(2) ok(3)]
  obtain cmds'' h'' where r2: "SubPathCommand_reverse h' cmds' = (Inr cmds'', h'')"
    and v2: "commands_of h'' cmds'' = reverse_by_value (commands_of h' cmds')"
    by blast
  have "commands_of h'' cmds'' = commands_of h cmds"
    unfolding v2 v1 by (rule reverse_by_value_twice [OF assms(4)])
  with r1 r2 show ?thesis
    by (simp add: and_then_def outcome_def)
qed

text \<open>The square, and the open path \<open>M Q L\<close>.\<close>

theorem X7_reverse_twice_polyline_witness:
  "polyline (commands_of square_store subpath0123)
   \<and> outcome (and_then (SubPathCommand_reverse square_store subpath0123)
                       SubPathCommand_reverse)
       = Inr (commands_of square_store subpath0123)
   \<and> polyline (commands_of curved_store [0, 1, 2])
   \<and> outcome (and_then (SubPathCommand_reverse curved_store [0, 1, 2]) SubPathCommand_reverse)
       = Inr (commands_of curved_store [0, 1, 2])"
proof -
  have a: "1 < length subpath0123" "distinct subpath0123"
    "list_all (\<lambda>a. a < length square_store) subpath0123"
    "polyline (commands_of square_store subpath0123)"
    by (simp_all add: subpath0123_def square_store_def commands_of_def polyline_def
          reversible_def pt_def MoveCommand_def LineCommand_def ClosePathCommand_def
          cmd_start_def cmd_end_def)
  have b: "1 < length [0, 1, 2 :: nat]" "distinct [0, 1, 2 :: nat]"
    "list_all (\<lambda>a. a < length curved_store) [0, 1, 2]"
    "polyline (commands_of curved_store [0, 1, 2])"
    by (simp_all add: curved_store_def commands_of_def polyline_def
          reversible_def pt_def MoveCommand_def LineCommand_def QuadraticCurveCommand_def
          cmd_start_def cmd_end_def)
  from a(4) b(4) X7_reverse_twice_polyline [OF a] X7_reverse_twice_polyline [OF b]
  show ?thesis
    by blast
qed

text \<open>
  X8: for a command, a subpath and a path alike, when the receiver is not morphable
  with \<open>start\<close> or not morphable with \<open>end\<close>, \<open>interpolate\<close> returns false (it does
  not raise) and leaves the store as it was, so no point and no argument of any
  command has changed. This is the part of C3 that the code satisfies.
\<close>

theorem X8_unmorphable_interpolate_changes_nothing:
  "(\<not> isMorphableWith (h ! c) (h ! cs) \<or> \<not> isMorphableWith (h ! c) (h ! ce)
      \<longrightarrow> interpolate ar h c cs ce fraction = (Inr False, h))
   \<and> (\<not> SubPathCommand_isMorphableWith h sp ss \<or> \<not> SubPathCommand_isMorphableWith h sp se
      \<longrightarrow> SubPathCommand_interpolate ar h sp ss se fraction = (Inr False, h))
   \<and> (\<not> PathCommand_isMorphableWith h p ps \<or> \<not> PathCommand_isMorphableWith h p pe
      \<longrightarrow> PathCommand_interpolate ar h p ps pe fraction = (Inr False, h))"
proof (intro conjI impI)
  assume "\<not> isMorphableWith (h ! c) (h ! cs) \<or> \<not> isMorphableWith (h ! c) (h ! ce)"
  then have not_arc: "ctor (h ! c) \<noteq> EllipticalArc"
    by (auto simp: isMorphableWith_def EllipticalArcCommand_isMorphableWith_def)
  with \<open>\<not> isMorphableWith (h ! c) (h ! cs) \<or> \<not> isMorphableWith (h ! c) (h ! ce)\<close>
  show "interpolate ar h c cs ce fraction = (Inr False, h)"
    by auto
next
  assume "\<not> SubPathCommand_isMorphableWith h sp ss \<or> \<not> SubPathCommand_isMorphableWith h sp se"
  then show "SubPathCommand_interpolate ar h sp ss se fraction = (Inr False, h)"
    by auto
next
  assume "\<not> PathCommand_isMorphableWith h p ps \<or> \<not> PathCommand_isMorphableWith h p pe"
  then show "PathCommand_interpolate ar h p ps pe fraction = (Inr False, h)"
    by auto
qed

text \<open>The premises hold for a line against an arc, for subpaths of different lengths,
  and for two paths with as many subpaths of which one pair differs in length.\<close>

theorem X8_unmorphable_interpolate_changes_nothing_witness:
  "\<forall>ar.
     \<not> isMorphableWith (arc_store ! 3) (arc_store ! 1)
     \<and> interpolate ar arc_store 3 1 3 (Num (1 / 2)) = (Inr False, arc_store)
     \<and> \<not> SubPathCommand_isMorphableWith arc_store [0, 1] [2]
     \<and> SubPathCommand_interpolate ar arc_store [0, 1] [2] [0, 1] (Num (1 / 2))
         = (Inr False, arc_store)
     \<and> \<not> PathCommand_isMorphableWith arc_store [[0, 1], [2, 3]] [[0, 1], [2]]
     \<and> PathCommand_interpolate ar arc_store [[0, 1], [2, 3]] [[0, 1], [2, 3]] [[0, 1], [2]]
           (Num (1 / 2))
         = (Inr False, arc_store)"
  (is "\<forall>ar. ?P ar")
proof
  fix ar
  have a: "\<not> isMorphableWith (arc_store ! 3) (arc_store ! 1)"
    by (simp add: arc_store_def pt_def LineCommand_def EllipticalArcCommand_def nums_def strict_eq_def
            isMorphableWith_def DrawCommand_isMorphableWith_def
            EllipticalArcCommand_isMorphableWith_def)
  have b: "\<not> SubPathCommand_isMorphableWith arc_store [0, 1] [2]"
    by (simp add: SubPathCommand_isMorphableWith_def)
  have c: "\<not> PathCommand_isMorphableWith arc_store [[0, 1], [2, 3]] [[0, 1], [2]]"
    by (simp add: PathCommand_isMorphableWith_def SubPathCommand_isMorphableWith_def)
  from a b c
    X8_unmorphable_interpolate_changes_nothing
      [of arc_store 3 1 3 ar "Num (1 / 2)" "[0, 1]" "[2]" "[0, 1]"
          "[[0, 1], [2, 3]]" "[[0, 1], [2, 3]]" "[[0, 1], [2]]"]
  show "?P ar"
    by blast
qed

end
